theory Spec2Isabelle
  imports Main "HOL-Library.Sublist" "HOL-Library.AList" "HOL-Library.Multiset"
begin

section \<open>The prompt collection script \<^verbatim>\<open>collect.ts\<close>\<close>

text \<open>
  The script is a sequential batch job: it lists the \<^verbatim>\<open>v0.*\<close> tags of an external git
  repository, and for every tag that the tracking repository's history does not mark as
  processed it checks the tag out, copies two source files into the tracking repository
  and commits them. This theory embeds the script function by function. Everything the
  script does through \<^verbatim>\<open>child_process.exec\<close>, \<^verbatim>\<open>fs/promises\<close>, \<^verbatim>\<open>console\<close> and
  \<^verbatim>\<open>process.exit\<close> goes through a record of the outside world that also keeps the list
  of the operations performed, in order.
\<close>

subsection \<open>JavaScript strings and arrays\<close>

text \<open>
  A JavaScript string is modelled as a \<^typ>\<open>string\<close>, one \<^typ>\<open>char\<close> per code unit
  (code units below 256). \<^verbatim>\<open>String.prototype.trim\<close> removes white space and line
  terminators at both ends; below 256 these are the code units 9 to 13, 32 and 160.
\<close>

abbreviation NL :: char where
  "NL \<equiv> CHR 0x0A"

abbreviation DQUOTE :: char where
  "DQUOTE \<equiv> CHR 0x22"

abbreviation BACKSLASH :: char where
  "BACKSLASH \<equiv> CHR 0x5C"

definition js_white :: "char \<Rightarrow> bool" where
  "js_white c = (let n = (of_char c :: nat) in (9 \<le> n \<and> n \<le> 13) \<or> n = 32 \<or> n = 160)"

definition trim :: "string \<Rightarrow> string" where
  "trim s = rev (dropWhile js_white (rev (dropWhile js_white s)))"

text \<open>\<^verbatim>\<open>s.split(sep)\<close> for a separator of one character: never the empty array.\<close>

fun js_split :: "char \<Rightarrow> string \<Rightarrow> string list" where
  "js_split sep [] = [[]]"
| "js_split sep (c # cs) =
     (if c = sep then [] # js_split sep cs
      else (case js_split sep cs of
              [] \<Rightarrow> [[c]]
            | x # xs \<Rightarrow> (c # x) # xs))"

text \<open>\<^verbatim>\<open>s.startsWith(p)\<close>.\<close>

definition startsWith :: "string \<Rightarrow> string \<Rightarrow> bool" where
  "startsWith s p = prefix p s"

text \<open>\<^verbatim>\<open>xs[i]\<close>: \<^verbatim>\<open>undefined\<close> (here \<^const>\<open>None\<close>) out of range.\<close>

definition js_index :: "'a list \<Rightarrow> int \<Rightarrow> 'a option" where
  "js_index xs i = (if 0 \<le> i \<and> i < int (length xs) then Some (xs ! nat i) else None)"

text \<open>\<^verbatim>\<open>xs.findIndex(p)\<close> and \<^verbatim>\<open>xs.indexOf(v)\<close>: the first position, or -1.\<close>

fun findIndex :: "('a \<Rightarrow> bool) \<Rightarrow> 'a list \<Rightarrow> int" where
  "findIndex p [] = -1"
| "findIndex p (x # xs) =
     (if p x then 0 else (let i = findIndex p xs in if i = -1 then -1 else i + 1))"

definition indexOf :: "'a list \<Rightarrow> 'a \<Rightarrow> int" where
  "indexOf xs v = findIndex (\<lambda>x. x = v) xs"

text \<open>
  \<^verbatim>\<open>xs.slice(start)\<close> for a start that is not negative, and \<^verbatim>\<open>xs.slice(0, end)\<close>: a
  negative end counts from the end of the array.
\<close>

definition slice_from :: "'a list \<Rightarrow> int \<Rightarrow> 'a list" where
  "slice_from xs start = drop (nat start) xs"

definition slice_to :: "'a list \<Rightarrow> int \<Rightarrow> 'a list" where
  "slice_to xs e =
     (let len = int (length xs);
          k = (if e < 0 then max (len + e) 0 else min e len)
      in take (nat k) xs)"

text \<open>
  A JavaScript number, as far as the script has one: the result of \<^verbatim>\<open>parseInt(s, 10)\<close>,
  which is \<^verbatim>\<open>NaN\<close> when no digit follows the optional white space and sign, and the
  integer the leading digits denote otherwise (the rounding of integers beyond
  \<open>2\<^sup>5\<^sup>3\<close> to a double is not modelled: such a limit exceeds the length of every list).
\<close>

datatype number = NaN | Num int

definition is_digit :: "char \<Rightarrow> bool" where
  "is_digit c = (48 \<le> (of_char c :: nat) \<and> (of_char c :: nat) \<le> 57)"

definition digits_value :: "string \<Rightarrow> nat" where
  "digits_value ds = foldl (\<lambda>a c. 10 * a + (of_char c - 48)) 0 ds"

definition parseInt :: "string option \<Rightarrow> number" where
  "parseInt arg =
     (case arg of
        None \<Rightarrow> NaN
      | Some s \<Rightarrow>
          (let s1 = dropWhile js_white s;
               neg = (s1 \<noteq> [] \<and> hd s1 = CHR ''-'');
               s2 = (if s1 \<noteq> [] \<and> (hd s1 = CHR ''-'' \<or> hd s1 = CHR ''+'') then tl s1 else s1);
               ds = takeWhile is_digit s2
           in if ds = [] then NaN
              else Num (if neg then - int (digits_value ds) else int (digits_value ds))))"

subsection \<open>Files, paths and UTF-8\<close>

text \<open>
  The two directories the script works in. Every path the script builds is
  \<^verbatim>\<open>path.join(ROOT, relative)\<close> for one of them, so a path is modelled as the root and the
  relative part; the two directories are taken to be disjoint.
\<close>

datatype repo = GEMINI_REPO_PATH | COLLECTION_REPO_PATH

type_synonym path = "repo \<times> string"

definition path_join :: "repo \<Rightarrow> string \<Rightarrow> path" where
  "path_join root rel = (root, rel)"

text \<open>\<^verbatim>\<open>path.dirname\<close> on a relative path without a trailing slash.\<close>

definition dirname :: "string \<Rightarrow> string" where
  "dirname p =
     (if CHR ''/'' \<in> set p then rev (tl (dropWhile (\<lambda>c. c \<noteq> CHR ''/'') (rev p))) else ''.'')"

definition path_dirname :: "path \<Rightarrow> path" where
  "path_dirname p = (fst p, dirname (snd p))"

text \<open>
  A directory tree is a list of entries, relative path to node; the first entry of a
  path counts. A file holds bytes (a \<^typ>\<open>char\<close> is a byte here).
\<close>

datatype node = File string | Dir

type_synonym fs = "(string \<times> node) list"

definition file_at :: "fs \<Rightarrow> string \<Rightarrow> string option" where
  "file_at t p = (case map_of t p of Some (File b) \<Rightarrow> Some b | _ \<Rightarrow> None)"

text \<open>The directories \<^verbatim>\<open>mkdir(d, {recursive: true})\<close> makes sure of: \<open>d\<close> and its ancestors.\<close>

definition dir_chain :: "string \<Rightarrow> string list" where
  "dir_chain d =
     (if d = ''.'' then []
      else map (\<lambda>i. take i d) (filter (\<lambda>i. d ! i = CHR ''/'') [0..<length d]) @ [d])"

text \<open>
  Reading a file with the encoding \<^verbatim>\<open>'utf-8'\<close> decodes its bytes, and writing a string
  with that encoding encodes it. The decoder is the one of the Encoding Standard: a
  malformed sequence becomes U+FFFD and decoding resumes at the byte that broke it.
  The text is kept as its list of code points (JavaScript holds it in UTF-16, which
  decoding and encoding pass through unchanged). The arguments of
  \<open>utf8_decode_from\<close> are the decoder's state: bytes needed, code point so far, and
  the bounds of the next byte.
\<close>

function utf8_decode_from :: "nat \<Rightarrow> nat \<Rightarrow> nat \<Rightarrow> nat \<Rightarrow> nat list \<Rightarrow> nat list" where
  "utf8_decode_from needed cp lo hi [] = (if needed = 0 then [] else [0xFFFD])"
| "utf8_decode_from needed cp lo hi (b # bs) =
     (if needed = 0 then
        (if b \<le> 0x7F then b # utf8_decode_from 0 0 0x80 0xBF bs
         else if 0xC2 \<le> b \<and> b \<le> 0xDF then utf8_decode_from 1 (b mod 32) 0x80 0xBF bs
         else if 0xE0 \<le> b \<and> b \<le> 0xEF then
           utf8_decode_from 2 (b mod 16)
             (if b = 0xE0 then 0xA0 else 0x80) (if b = 0xED then 0x9F else 0xBF) bs
         else if 0xF0 \<le> b \<and> b \<le> 0xF4 then
           utf8_decode_from 3 (b mod 8)
             (if b = 0xF0 then 0x90 else 0x80) (if b = 0xF4 then 0x8F else 0xBF) bs
         else 0xFFFD # utf8_decode_from 0 0 0x80 0xBF bs)
      else if lo \<le> b \<and> b \<le> hi then
        (if needed = 1 then (cp * 64 + b mod 64) # utf8_decode_from 0 0 0x80 0xBF bs
         else utf8_decode_from (needed - 1) (cp * 64 + b mod 64) 0x80 0xBF bs)
      else 0xFFFD # utf8_decode_from 0 0 0x80 0xBF (b # bs))"
  by pat_completeness auto
termination
  by (relation "measure (\<lambda>(needed, cp, lo, hi, bs). 2 * length bs + (if needed = 0 then 0 else 1))")
     auto

declare utf8_decode_from.simps [simp del]

definition utf8_decode :: "string \<Rightarrow> nat list" where
  "utf8_decode bytes = utf8_decode_from 0 0 0x80 0xBF (map of_char bytes)"

definition scalar :: "nat \<Rightarrow> bool" where
  "scalar cp = (cp < 0xD800 \<or> (0xE000 \<le> cp \<and> cp < 0x110000))"

definition utf8_encode_cp :: "nat \<Rightarrow> nat list" where
  "utf8_encode_cp cp =
     (if \<not> scalar cp then [0xEF, 0xBF, 0xBD]
      else if cp < 0x80 then [cp]
      else if cp < 0x800 then [0xC0 + cp div 64, 0x80 + cp mod 64]
      else if cp < 0x10000 then [0xE0 + cp div 4096, 0x80 + cp div 64 mod 64, 0x80 + cp mod 64]
      else [0xF0 + cp div 262144, 0x80 + cp div 4096 mod 64, 0x80 + cp div 64 mod 64,
            0x80 + cp mod 64])"

definition utf8_encode :: "nat list \<Rightarrow> string" where
  "utf8_encode cps = map char_of (concat (map utf8_encode_cp cps))"

subsection \<open>The two git repositories\<close>

text \<open>
  A commit of the tracking repository: its message and the files it records. Commands
  are kept by what the script runs, with the text it interpolates:
  \<^verbatim>\<open>git tag --sort=creatordate\<close>, \<^verbatim>\<open>git log --oneline --grep="PATTERN"\<close>,
  \<^verbatim>\<open>git checkout REF\<close>, \<^verbatim>\<open>git status --porcelain\<close>, \<^verbatim>\<open>git add .\<close> and
  \<^verbatim>\<open>git commit -m "TEXT"\<close>. The text is written into the command line as it is; what
  the shell makes of it there is the subject of the next but one subsection.
\<close>

type_synonym tree = "(string \<times> string) list"

record commit =
  message :: string
  snapshot :: tree

datatype command =
    GitTag
  | GitLog string
  | GitCheckout string
  | GitStatus
  | GitAdd
  | GitCommit string

datatype error =
    ExecError repo command
  | ENOENT path
  | EISDIR path
  | EEXIST path
  | ENOTDIR path

text \<open>What the script prints, one constructor for each \<^verbatim>\<open>console\<close> call of the source.\<close>

datatype printout =
    Banner
  | Found nat
  | VersionNotFound string
  | StartingFrom string nat
  | Limiting int
  | Processing nat nat string
  | Skipping
  | ExtractedList "string list"
  | MissingList "string list"
  | NoChanges
  | Committed
  | CommitFailed error
  | TagError string error
  | Blank
  | Complete
  | Fatal error

datatype event =
    Exec repo command
  | FsAccess path
  | FsReadFile path
  | FsMkdir path
  | FsWriteFile path "nat list"
  | ConsoleLog printout
  | ConsoleError printout
  | ProcessExit nat

text \<open>
  The world: the external repository (whether git can read it at all, its tags in
  creation order and its branches, each with the working tree a checkout of it leaves,
  the references whose checkout fails, and the working tree), the tracking repository
  (working tree, index, history with the newest commit first, and whether
  \<^verbatim>\<open>git commit\<close> is refused, as without an author identity), the command lines that
  succeed among those the model of the shell does not follow, each with what it prints,
  and the operations performed so far.
\<close>

record world =
  ext_available :: bool
  ext_tags :: "(string \<times> fs) list"
  ext_branches :: "(string \<times> fs) list"
  ext_broken :: "string list"
  ext_fs :: fs
  trk_fs :: fs
  trk_index :: tree
  trk_commits :: "commit list"
  trk_commit_rejected :: bool
  sh_beyond :: "((repo \<times> command) \<times> string) list"
  trace :: "event list"

definition fs_of :: "world \<Rightarrow> repo \<Rightarrow> fs" where
  "fs_of w r = (case r of GEMINI_REPO_PATH \<Rightarrow> ext_fs w | COLLECTION_REPO_PATH \<Rightarrow> trk_fs w)"

definition set_fs :: "repo \<Rightarrow> fs \<Rightarrow> world \<Rightarrow> world" where
  "set_fs r t w =
     (case r of GEMINI_REPO_PATH \<Rightarrow> w\<lparr>ext_fs := t\<rparr> | COLLECTION_REPO_PATH \<Rightarrow> w\<lparr>trk_fs := t\<rparr>)"

text \<open>
  \<^verbatim>\<open>git log --grep\<close> reads its pattern as a basic regular expression and looks for it
  in every line of a commit message. A tag name cannot hold an asterisk, a bracket, a
  backslash or a caret, so of the special characters only the dot (any character) and
  the final dollar sign (end of line) are left.
\<close>

fun match_here :: "string \<Rightarrow> string \<Rightarrow> bool" where
  "match_here [] s = True"
| "match_here (p # ps) s =
     (if p = CHR ''$'' \<and> ps = [] then s = []
      else (case s of
              [] \<Rightarrow> False
            | c # cs \<Rightarrow> (p = CHR ''.'' \<or> p = c) \<and> match_here ps cs))"

fun match_line :: "string \<Rightarrow> string \<Rightarrow> bool" where
  "match_line pat [] = match_here pat []"
| "match_line pat (c # cs) = (match_here pat (c # cs) \<or> match_line pat cs)"

definition grep_commit :: "string \<Rightarrow> commit \<Rightarrow> bool" where
  "grep_commit pat c = list_ex (match_line pat) (js_split NL (message c))"

definition first_line :: "string \<Rightarrow> string" where
  "first_line s = takeWhile (\<lambda>c. c \<noteq> NL) s"

text \<open>A line of \<^verbatim>\<open>git log --oneline\<close>; seven zeros stand for the abbreviated hash.\<close>

definition oneline :: "commit \<Rightarrow> string" where
  "oneline c = ''0000000 '' @ first_line (message c) @ [NL]"

definition head_tree :: "world \<Rightarrow> tree" where
  "head_tree w = (case trk_commits w of [] \<Rightarrow> [] | c # _ \<Rightarrow> snapshot c)"

text \<open>
  \<^verbatim>\<open>git status --porcelain\<close> prints a line for every path on which the last commit, the
  index and the working tree do not agree: two status letters, a blank and the path.
\<close>

definition status_paths :: "world \<Rightarrow> string list" where
  "status_paths w =
     filter (\<lambda>p. \<not> (map_of (head_tree w) p = map_of (trk_index w) p \<and>
                    map_of (trk_index w) p = file_at (trk_fs w) p))
       (remdups (map fst (head_tree w) @ map fst (trk_index w) @ map fst (trk_fs w)))"

definition status_code :: "string option \<Rightarrow> string option \<Rightarrow> string option \<Rightarrow> string" where
  "status_code h i k =
     (if h = None \<and> i = None then ''??''
      else [if i = h then CHR '' '' else if h = None then CHR ''A''
            else if i = None then CHR ''D'' else CHR ''M'',
            if k = i then CHR '' '' else if k = None then CHR ''D'' else CHR ''M''])"

definition status_output :: "world \<Rightarrow> string" where
  "status_output w =
     concat (map (\<lambda>p. status_code (map_of (head_tree w) p) (map_of (trk_index w) p)
                         (file_at (trk_fs w) p) @ '' '' @ p @ [NL])
               (status_paths w))"

text \<open>\<^verbatim>\<open>git add .\<close> makes the index the files of the working tree.\<close>

definition staged :: "fs \<Rightarrow> tree" where
  "staged t = List.map_filter (\<lambda>p. map_option (Pair p) (file_at t p)) (remdups (map fst t))"

definition same_tree :: "tree \<Rightarrow> tree \<Rightarrow> bool" where
  "same_tree a b = list_all (\<lambda>p. map_of a p = map_of b p) (map fst a @ map fst b)"

definition resolve_ref :: "world \<Rightarrow> string \<Rightarrow> fs option" where
  "resolve_ref w r =
     (case map_of (ext_branches w) r of Some t \<Rightarrow> Some t | None \<Rightarrow> map_of (ext_tags w) r)"

text \<open>
  A git command in a directory, with the arguments as git receives them: its standard
  output and the world after it, or \<^const>\<open>None\<close> when it exits with an error. \<^verbatim>\<open>git log\<close> fails in a repository without
  commits; a checkout fails for an unknown or broken reference; \<^verbatim>\<open>git commit\<close> fails
  when it is refused or when the index is the last commit's tree.
\<close>

fun git :: "repo \<Rightarrow> command \<Rightarrow> world \<Rightarrow> (string \<times> world) option" where
  "git GEMINI_REPO_PATH GitTag w =
     (if ext_available w then Some (concat (map (\<lambda>t. fst t @ [NL]) (ext_tags w)), w) else None)"
| "git GEMINI_REPO_PATH (GitCheckout r) w =
     (if \<not> ext_available w \<or> r \<in> set (ext_broken w) then None
      else (case resolve_ref w r of
              None \<Rightarrow> None
            | Some t \<Rightarrow> Some ([], w\<lparr>ext_fs := t\<rparr>)))"
| "git COLLECTION_REPO_PATH (GitLog pat) w =
     (if trk_commits w = [] then None
      else Some (concat (map oneline (filter (grep_commit pat) (trk_commits w))), w))"
| "git COLLECTION_REPO_PATH GitStatus w = Some (status_output w, w)"
| "git COLLECTION_REPO_PATH GitAdd w = Some ([], w\<lparr>trk_index := staged (trk_fs w)\<rparr>)"
| "git COLLECTION_REPO_PATH (GitCommit arg) w =
     (if trk_commit_rejected w \<or> same_tree (trk_index w) (head_tree w) then None
      else Some ([], w\<lparr>trk_commits :=
                          \<lparr>message = arg, snapshot = trk_index w\<rparr> # trk_commits w\<rparr>))"
| "git _ _ w = None"

subsection \<open>The shell\<close>

text \<open>
  \<^verbatim>\<open>exec\<close> hands its command line to \<^verbatim>\<open>/bin/sh\<close>, and the script writes the tag, the
  pattern and the commit message into the command line without escaping them for the
  shell (of the message it escapes the double quotes only). So git receives what the
  shell reads: a double quote ends or begins a quoted part and is removed; in a quoted
  part a backslash before a double quote, a backslash, a dollar sign or a backquote is
  removed, and a backslash before a line break is removed with the line break; in a
  bare part a single quote begins a part that is taken as it is, up to the next single
  quote. A dollar sign that begins no expansion stands for itself, as the one that ends
  the pattern of \<^verbatim>\<open>--grep\<close>.

  Of the rest the model follows nothing: a backquote, a dollar sign that begins an
  expansion, and in a bare part every character other than a letter, a digit and
  \<^verbatim>\<open>._-/+=,:@%\<close> (blanks, operators, patterns) make the scan give \<^const>\<open>None\<close>.
\<close>

abbreviation SQUOTE :: char where
  "SQUOTE \<equiv> CHR 0x27"

abbreviation BACKQUOTE :: char where
  "BACKQUOTE \<equiv> CHR 0x60"

datatype quoting = Bare | Double | Single

definition bare_plain :: "char \<Rightarrow> bool" where
  "bare_plain c =
     (c \<in> set ''abcdefghijklmnopqrstuvwxyzABCDEFGHIJKLMNOPQRSTUVWXYZ0123456789._-/+=,:@%'')"

text \<open>A dollar sign begins an expansion when a name, a digit, a brace, a parenthesis or a
  special parameter follows it.\<close>

definition expands :: "string \<Rightarrow> bool" where
  "expands cs =
     (case cs of
        [] \<Rightarrow> False
      | d # ds \<Rightarrow>
          d \<in> set ''abcdefghijklmnopqrstuvwxyzABCDEFGHIJKLMNOPQRSTUVWXYZ0123456789_{(@*#?-$!'')"

definition keep :: "char \<Rightarrow> (quoting \<times> string) option \<Rightarrow> (quoting \<times> string) option" where
  "keep c r = map_option (\<lambda>(q, arg). (q, c # arg)) r"

text \<open>
  The scan of a text that stands in the command line in a part of the given kind: the
  kind of the part in which the text ends, and the characters that are left of it.
\<close>

fun sh_scan :: "quoting \<Rightarrow> string \<Rightarrow> (quoting \<times> string) option" where
  "sh_scan q [] = Some (q, [])"
| "sh_scan Single (c # cs) =
     (if c = SQUOTE then sh_scan Bare cs else keep c (sh_scan Single cs))"
| "sh_scan Double (c # cs) =
     (if c = DQUOTE then sh_scan Bare cs
      else if c = BACKQUOTE \<or> (c = CHR ''$'' \<and> expands cs) then None
      else if c = BACKSLASH then
        (case cs of
           [] \<Rightarrow> None
         | d # ds \<Rightarrow>
             if d = DQUOTE \<or> d = BACKSLASH \<or> d = CHR ''$'' \<or> d = BACKQUOTE
             then keep d (sh_scan Double ds)
             else if d = NL then sh_scan Double ds
             else keep c (keep d (sh_scan Double ds)))
      else keep c (sh_scan Double cs))"
| "sh_scan Bare (c # cs) =
     (if c = DQUOTE then sh_scan Double cs
      else if c = SQUOTE then sh_scan Single cs
      else if c = CHR ''$'' \<and> cs = [] then Some (Bare, [c])
      else if bare_plain c then keep c (sh_scan Bare cs)
      else None)"

text \<open>
  What the shell reads where the script wrote a text: the argument that git receives,
  when the text ends in the kind of part in which it began, so that what follows it in
  the command line is read as the script meant it; a command line that the shell
  refuses, when it does not (a quoted part is then left open at the end of the line);
  or a command line beyond the model.
\<close>

datatype 'a reading = Reads 'a | Malformed | Beyond

definition sh_reads :: "quoting \<Rightarrow> string \<Rightarrow> string reading" where
  "sh_reads q text =
     (case sh_scan q text of
        None \<Rightarrow> Beyond
      | Some (q', arg) \<Rightarrow> if q' = q then Reads arg else Malformed)"

text \<open>
  The command that the shell runs for a command line of the script. An empty text after
  \<^verbatim>\<open>git checkout\<close> leaves the command without its argument, which the model does not
  follow.
\<close>

fun sh :: "command \<Rightarrow> command reading" where
  "sh (GitLog text) = map_reading GitLog (sh_reads Double text)"
| "sh (GitCheckout text) = (if text = [] then Beyond else map_reading GitCheckout (sh_reads Bare text))"
| "sh (GitCommit text) = map_reading GitCommit (sh_reads Double text)"
| "sh cmd = Reads cmd"

text \<open>
  A text without a double quote, a backslash, a dollar sign and a backquote (between
  double quotes the shell leaves it as it is), and a command line that the model of the
  shell follows.
\<close>

definition shell_inert :: "string \<Rightarrow> bool" where
  "shell_inert text =
     list_all (\<lambda>c. c \<noteq> DQUOTE \<and> c \<noteq> BACKSLASH \<and> c \<noteq> CHR ''$'' \<and> c \<noteq> BACKQUOTE) text"

definition followed :: "command \<Rightarrow> bool" where
  "followed cmd = (sh cmd \<noteq> Beyond)"

text \<open>The file system calls: their result, or the error they reject with.\<close>

definition sys_access :: "path \<Rightarrow> world \<Rightarrow> error + unit" where
  "sys_access p w =
     (case map_of (fs_of w (fst p)) (snd p) of None \<Rightarrow> Inl (ENOENT p) | Some _ \<Rightarrow> Inr ())"

definition sys_readFile :: "path \<Rightarrow> world \<Rightarrow> error + nat list" where
  "sys_readFile p w =
     (case map_of (fs_of w (fst p)) (snd p) of
        None \<Rightarrow> Inl (ENOENT p)
      | Some Dir \<Rightarrow> Inl (EISDIR p)
      | Some (File b) \<Rightarrow> Inr (utf8_decode b))"

definition is_file :: "fs \<Rightarrow> string \<Rightarrow> bool" where
  "is_file t p = (case map_of t p of Some (File _) \<Rightarrow> True | _ \<Rightarrow> False)"

definition sys_mkdir :: "path \<Rightarrow> world \<Rightarrow> error + world" where
  "sys_mkdir p w =
     (let t = fs_of w (fst p); ds = dir_chain (snd p)
      in if is_file t (snd p) then Inl (EEXIST p)
         else if list_ex (is_file t) ds then Inl (ENOTDIR p)
         else Inr (set_fs (fst p) (foldl (\<lambda>u d. AList.update d Dir u) t ds) w))"

definition sys_writeFile :: "path \<Rightarrow> nat list \<Rightarrow> world \<Rightarrow> error + world" where
  "sys_writeFile p content w =
     (let t = fs_of w (fst p)
      in if map_of t (snd p) = Some Dir then Inl (EISDIR p)
         else if dirname (snd p) \<noteq> ''.'' \<and> map_of t (dirname (snd p)) \<noteq> Some Dir
           then Inl (ENOENT p)
         else Inr (set_fs (fst p) (AList.update (snd p) (File (utf8_encode content)) t) w))"

subsection \<open>Asynchronous functions\<close>

text \<open>
  An \<^verbatim>\<open>async\<close> function runs in a world and ends in a world: it returns a value, or
  rejects with an error (which a \<^verbatim>\<open>try\<close> block catches), or the process has exited
  (which nothing catches).
\<close>

datatype 'a outcome = Return 'a | Throw error | Exit nat

type_synonym 'a io = "world \<Rightarrow> 'a outcome \<times> world"

definition io_return :: "'a \<Rightarrow> 'a io" where
  "io_return x = (\<lambda>w. (Return x, w))"

definition io_bind :: "'a io \<Rightarrow> ('a \<Rightarrow> 'b io) \<Rightarrow> 'b io" where
  "io_bind m k =
     (\<lambda>w. case m w of
            (Return x, w') \<Rightarrow> k x w'
          | (Throw e, w') \<Rightarrow> (Throw e, w')
          | (Exit n, w') \<Rightarrow> (Exit n, w'))"

definition io_catch :: "'a io \<Rightarrow> (error \<Rightarrow> 'a io) \<Rightarrow> 'a io" where
  "io_catch m h =
     (\<lambda>w. case m w of
            (Throw e, w') \<Rightarrow> h e w'
          | r \<Rightarrow> r)"

definition emit :: "event \<Rightarrow> world \<Rightarrow> world" where
  "emit ev w = w\<lparr>trace := trace w @ [ev]\<rparr>"

text \<open>
  \<^verbatim>\<open>execAsync\<close>: the shell reads the command line and git runs what it read. Of a
  command line beyond the model of the shell the world tells whether it succeeds and
  what it prints; what else it does is not followed.
\<close>

definition execAsync :: "command \<Rightarrow> repo \<Rightarrow> string io" where
  "execAsync cmd cwd =
     (\<lambda>w. case sh cmd of
            Reads c \<Rightarrow>
              (case git cwd c (emit (Exec cwd cmd) w) of
                 None \<Rightarrow> (Throw (ExecError cwd cmd), emit (Exec cwd cmd) w)
               | Some (out, w') \<Rightarrow> (Return out, w'))
          | Malformed \<Rightarrow> (Throw (ExecError cwd cmd), emit (Exec cwd cmd) w)
          | Beyond \<Rightarrow>
              (case map_of (sh_beyond w) (cwd, cmd) of
                 None \<Rightarrow> (Throw (ExecError cwd cmd), emit (Exec cwd cmd) w)
               | Some out \<Rightarrow> (Return out, emit (Exec cwd cmd) w)))"

definition fs_access :: "path \<Rightarrow> unit io" where
  "fs_access p =
     (\<lambda>w. case sys_access p w of
            Inl e \<Rightarrow> (Throw e, emit (FsAccess p) w)
          | Inr u \<Rightarrow> (Return u, emit (FsAccess p) w))"

definition fs_readFile :: "path \<Rightarrow> (nat list) io" where
  "fs_readFile p =
     (\<lambda>w. case sys_readFile p w of
            Inl e \<Rightarrow> (Throw e, emit (FsReadFile p) w)
          | Inr content \<Rightarrow> (Return content, emit (FsReadFile p) w))"

definition fs_mkdir :: "path \<Rightarrow> unit io" where
  "fs_mkdir p =
     (\<lambda>w. case sys_mkdir p (emit (FsMkdir p) w) of
            Inl e \<Rightarrow> (Throw e, emit (FsMkdir p) w)
          | Inr w' \<Rightarrow> (Return (), w'))"

definition fs_writeFile :: "path \<Rightarrow> nat list \<Rightarrow> unit io" where
  "fs_writeFile p content =
     (\<lambda>w. case sys_writeFile p content (emit (FsWriteFile p content) w) of
            Inl e \<Rightarrow> (Throw e, emit (FsWriteFile p content) w)
          | Inr w' \<Rightarrow> (Return (), w'))"

definition console_log :: "printout \<Rightarrow> unit io" where
  "console_log m = (\<lambda>w. (Return (), emit (ConsoleLog m) w))"

definition console_error :: "printout \<Rightarrow> unit io" where
  "console_error m = (\<lambda>w. (Return (), emit (ConsoleError m) w))"

definition process_exit :: "nat \<Rightarrow> 'a io" where
  "process_exit n = (\<lambda>w. (Exit n, emit (ProcessExit n) w))"

subsection \<open>The script\<close>

record SourceFile =
  sourcePath :: string
  targetPath :: string
  name :: string

definition SOURCE_FILES :: "SourceFile list" where
  "SOURCE_FILES =
     [\<lparr>sourcePath = ''packages/core/src/core/prompts.ts'',
       targetPath = ''prompts/prompts.ts'',
       name = ''Core prompts''\<rparr>,
      \<lparr>sourcePath = ''packages/core/src/tools/tool-registry.ts'',
       targetPath = ''tools/tool-registry.ts'',
       name = ''Tool registry''\<rparr>]"

definition getAllTags :: "(string list) io" where
  "getAllTags =
     io_bind (execAsync GitTag GEMINI_REPO_PATH) (\<lambda>stdout.
     io_return (filter (\<lambda>tag. startsWith tag ''v0.'') (js_split NL (trim stdout))))"

definition isVersionProcessed :: "string \<Rightarrow> bool io" where
  "isVersionProcessed version =
     io_catch
       (io_bind (execAsync (GitLog (''Add metadata for '' @ version @ ''$'')) COLLECTION_REPO_PATH)
          (\<lambda>stdout. io_return (length (trim stdout) > 0)))
       (\<lambda>e. io_return False)"

definition checkoutTag :: "string \<Rightarrow> unit io" where
  "checkoutTag tag = io_bind (execAsync (GitCheckout tag) GEMINI_REPO_PATH) (\<lambda>r. io_return ())"

definition returnToMain :: "unit io" where
  "returnToMain = io_bind (execAsync (GitCheckout ''main'') GEMINI_REPO_PATH) (\<lambda>r. io_return ())"


definition extractFile :: "SourceFile \<Rightarrow> string list \<Rightarrow> string list \<Rightarrow> (string list \<times> string list) io" where
  "extractFile file extracted missing =
     (let source = path_join GEMINI_REPO_PATH (sourcePath file);
          target = path_join COLLECTION_REPO_PATH (targetPath file)
      in io_catch
           (io_bind (fs_access source) (\<lambda>u.
            io_bind (fs_readFile source) (\<lambda>content.
            io_bind (fs_mkdir (path_dirname target)) (\<lambda>u.
            io_bind (fs_writeFile target content) (\<lambda>u.
            io_return (extracted @ [name file], missing))))))
           (\<lambda>e. io_return (extracted, missing @ [name file])))"

fun extractLoop :: "SourceFile list \<Rightarrow> string list \<Rightarrow> string list \<Rightarrow> (string list \<times> string list) io" where
  "extractLoop [] extracted missing = io_return (extracted, missing)"
| "extractLoop (file # files) extracted missing =
     io_bind (extractFile file extracted missing) (\<lambda>r. extractLoop files (fst r) (snd r))"

definition extractSources :: "(string list \<times> string list) io" where
  "extractSources = extractLoop SOURCE_FILES [] []"

text \<open>The message \<^verbatim>\<open>commitChanges\<close> builds, and the escaping of its double quotes.\<close>

definition commitMessage :: "string \<Rightarrow> string list \<Rightarrow> string list \<Rightarrow> string" where
  "commitMessage tag extracted missing =
     (let message = ''Add metadata for '' @ tag @ [NL, NL] @ ''Extracted:'' @ [NL];
          message = foldl (\<lambda>m name. m @ ''- '' @ name @ [NL]) message extracted;
          message =
            (if length missing > 0
             then foldl (\<lambda>m name. m @ ''- '' @ name @ [NL])
                    (message @ [NL] @ ''Missing:'' @ [NL]) missing
             else message)
      in message)"

definition escapeQuotes :: "string \<Rightarrow> string" where
  "escapeQuotes s = concat (map (\<lambda>c. if c = DQUOTE then [BACKSLASH, DQUOTE] else [c]) s)"

definition commitChanges :: "string \<Rightarrow> string list \<Rightarrow> string list \<Rightarrow> unit io" where
  "commitChanges tag extracted missing =
     io_catch
       (io_bind (execAsync GitStatus COLLECTION_REPO_PATH) (\<lambda>statusOutput.
        if trim statusOutput = [] then console_log NoChanges
        else
          io_bind (execAsync GitAdd COLLECTION_REPO_PATH) (\<lambda>r.
          io_bind (execAsync (GitCommit (escapeQuotes (commitMessage tag extracted missing)))
                     COLLECTION_REPO_PATH) (\<lambda>r.
          console_log Committed))))
       (\<lambda>e. console_error (CommitFailed e))"

text \<open>The command line: \<^verbatim>\<open>process.argv\<close> is the argument of \<open>main\<close>.\<close>

definition startFromVersion :: "string list \<Rightarrow> string option" where
  "startFromVersion argv =
     (let startFromIndex = findIndex (\<lambda>arg. startsWith arg ''--start-from='') argv
      in if startFromIndex \<noteq> -1
         then (case js_index argv startFromIndex of
                 None \<Rightarrow> None
               | Some arg \<Rightarrow> js_index (js_split CHR ''='' arg) 1)
         else None)"

definition limit :: "string list \<Rightarrow> number option" where
  "limit argv =
     (let limitIndex = findIndex (\<lambda>arg. startsWith arg ''--limit='') argv
      in if limitIndex \<noteq> -1
         then Some (parseInt (case js_index argv limitIndex of
                                None \<Rightarrow> None
                              | Some arg \<Rightarrow> js_index (js_split CHR ''='' arg) 1))
         else None)"

text \<open>
  The two filters of \<open>main\<close> on the list of tags: the starting version first, the
  limit after it. The test \<^verbatim>\<open>if (startFromVersion)\<close> fails for \<^verbatim>\<open>null\<close>, \<^verbatim>\<open>undefined\<close>
  and the empty string, the test \<^verbatim>\<open>if (limit)\<close> for \<^verbatim>\<open>null\<close>, \<^verbatim>\<open>NaN\<close> and 0.
\<close>

definition filterStartFrom :: "string option \<Rightarrow> string list \<Rightarrow> (string list) io" where
  "filterStartFrom startFrom allTags =
     (case startFrom of
        None \<Rightarrow> io_return allTags
      | Some v \<Rightarrow>
          if v = [] then io_return allTags
          else
            (let startIndex = indexOf allTags v
             in io_bind
                  (if startIndex = -1
                   then io_bind (console_error (VersionNotFound v)) (\<lambda>u. process_exit 1)
                   else io_return ()) (\<lambda>u.
                io_bind (console_log (StartingFrom v (length (slice_from allTags startIndex))))
                  (\<lambda>u.
                io_return (slice_from allTags startIndex)))))"

definition limitTags :: "number option \<Rightarrow> string list \<Rightarrow> (string list) io" where
  "limitTags lim tags =
     (case lim of
        Some (Num n) \<Rightarrow>
          if n \<noteq> 0
          then io_bind (console_log (Limiting n)) (\<lambda>u. io_return (slice_to tags n))
          else io_return tags
      | _ \<Rightarrow> io_return tags)"

definition selectTags :: "string option \<Rightarrow> number option \<Rightarrow> string list \<Rightarrow> (string list) io" where
  "selectTags startFrom lim allTags =
     io_bind (filterStartFrom startFrom allTags) (\<lambda>tags. limitTags lim tags)"

text \<open>One turn of the loop over the tags, and the loop from index \<open>i\<close> on.\<close>

definition processTag :: "nat \<Rightarrow> nat \<Rightarrow> string \<Rightarrow> unit io" where
  "processTag i n tag =
     io_bind (console_log (Processing (i + 1) n tag)) (\<lambda>u.
     io_bind (isVersionProcessed tag) (\<lambda>alreadyProcessed.
     if alreadyProcessed then console_log Skipping
     else
       io_catch
         (io_bind (checkoutTag tag) (\<lambda>u.
          io_bind extractSources (\<lambda>r.
          io_bind (if length (fst r) > 0 then console_log (ExtractedList (fst r))
                   else io_return ()) (\<lambda>u.
          io_bind (if length (snd r) > 0 then console_log (MissingList (snd r))
                   else io_return ()) (\<lambda>u.
          io_bind (commitChanges tag (fst r) (snd r)) (\<lambda>u.
          console_log Blank))))))
         (\<lambda>e. io_bind (console_error (TagError tag e)) (\<lambda>u. console_log Blank))))"

fun processTags :: "nat \<Rightarrow> nat \<Rightarrow> string list \<Rightarrow> unit io" where
  "processTags i n [] = io_return ()"
| "processTags i n (tag # rest) =
     io_bind (processTag i n tag) (\<lambda>u. processTags (i + 1) n rest)"

text \<open>
  \<open>main\<close> in two parts: up to the list of tags to process (the banner, the tag
  listing, the filters), and from the loop on.
\<close>

definition startup :: "string list \<Rightarrow> (string list) io" where
  "startup argv =
     io_bind (console_log Banner) (\<lambda>u.
     io_bind getAllTags (\<lambda>allTags.
     io_bind (console_log (Found (length allTags))) (\<lambda>u.
     selectTags (startFromVersion argv) (limit argv) allTags)))"

definition main :: "string list \<Rightarrow> unit io" where
  "main argv =
     io_bind (startup argv) (\<lambda>tags.
     io_bind (processTags 0 (length tags) tags) (\<lambda>u.
     io_bind returnToMain (\<lambda>u.
     console_log Complete)))"

text \<open>
  The process: \<^verbatim>\<open>main().catch(...)\<close> prints a rejection and exits with 1; a run that
  comes to its end exits with 0.
\<close>

definition run :: "string list \<Rightarrow> world \<Rightarrow> nat \<times> world" where
  "run argv w =
     (case main argv w of
        (Return u, w') \<Rightarrow> (0, w')
      | (Throw e, w') \<Rightarrow> (1, emit (ProcessExit 1) (emit (ConsoleError (Fatal e)) w'))
      | (Exit n, w') \<Rightarrow> (n, w'))"

subsection \<open>Reading the list of operations\<close>

text \<open>
  The tags the loop came to, in order (each turn starts by printing its tag); the kinds
  of operation the properties speak of; and the tags whose listing \<open>getAllTags\<close> returns
  in a world.
\<close>

fun iterated :: "event list \<Rightarrow> string list" where
  "iterated [] = []"
| "iterated (ConsoleLog (Processing i n t) # evs) = t # iterated evs"
| "iterated (ev # evs) = iterated evs"





definition enumerated :: "world \<Rightarrow> string list" where
  "enumerated w = (case getAllTags w of (Return tags, w') \<Rightarrow> tags | _ \<Rightarrow> [])"

text \<open>A tag is marked when some commit's first message line is its marker.\<close>

definition marked :: "world \<Rightarrow> string \<Rightarrow> bool" where
  "marked w tag =
     list_ex (\<lambda>c. first_line (message c) = ''Add metadata for '' @ tag) (trk_commits w)"

text \<open>
  Three properties of an asynchronous function, in every world: it only adds to the list
  of operations, and adds no turn of the loop; it never exits the process; it returns.
\<close>

definition quiet :: "'a io \<Rightarrow> bool" where
  "quiet m = (\<forall>w. \<exists>evs. trace (snd (m w)) = trace w @ evs \<and> iterated evs = [])"

definition no_exit :: "'a io \<Rightarrow> bool" where
  "no_exit m = (\<forall>w n. fst (m w) \<noteq> Exit n)"

definition returns :: "'a io \<Rightarrow> bool" where
  "returns m = (\<forall>w. \<exists>x. fst (m w) = Return x)"

subsection \<open>Example worlds\<close>


text \<open>
  A tracking repository that holds the commit of the tag \<^verbatim>\<open>v0.1\<close> and nothing to
  commit; and the same with a change in the index that the working tree does not have.
\<close>

definition w_done :: world where
  "w_done = \<lparr>ext_available = True,
     ext_tags = [(''v0.1'', [(''packages/core/src/core/prompts.ts'', File ''a'')])],
     ext_branches = [(''main'', [])],
     ext_broken = [],
     ext_fs = [],
     trk_fs = [(''prompts'', Dir), (''prompts/prompts.ts'', File ''a'')],
     trk_index = [(''prompts/prompts.ts'', ''a'')],
     trk_commits = [\<lparr>message = commitMessage ''v0.1'' [''Core prompts''] [''Tool registry''],
                     snapshot = [(''prompts/prompts.ts'', ''a'')]\<rparr>],
     trk_commit_rejected = False,
     sh_beyond = [], trace = []\<rparr>"

definition w_staged :: world where
  "w_staged = w_done\<lparr>trk_index := [(''prompts/prompts.ts'', ''b'')]\<rparr>"



text \<open>
  Three tags of the versions 0 and one tag of another version between them; an empty
  tracking repository.
\<close>

definition w_three :: world where
  "w_three = \<lparr>ext_available = True,
     ext_tags = [(''v0.1'', []), (''v0.2'', []), (''v1.0'', []), (''v0.3'', [])],
     ext_branches = [(''main'', [])],
     ext_broken = [],
     ext_fs = [],
     trk_fs = [], trk_index = [], trk_commits = [], trk_commit_rejected = False,
     sh_beyond = [], trace = []\<rparr>"

text \<open>A tag with an equals sign in its name.\<close>

definition w_equals :: world where
  "w_equals = w_three\<lparr>ext_tags := [(''v0.1=x'', []), (''v0.2'', [])]\<rparr>"



text \<open>
  Worlds for the copy of a file: the tracking repository has a regular file where the
  directory \<^verbatim>\<open>prompts\<close> should be; the source file holds the single byte E9, which is no
  UTF-8; the source file holds the UTF-8 encoding of four code points of one to four
  bytes.
\<close>

definition w_blocked :: world where
  "w_blocked = \<lparr>ext_available = True,
     ext_tags = [],
     ext_branches = [],
     ext_broken = [],
     ext_fs = [(''packages/core/src/core/prompts.ts'', File ''x'')],
     trk_fs = [(''prompts'', File [])],
     trk_index = [], trk_commits = [], trk_commit_rejected = False,
     sh_beyond = [], trace = []\<rparr>"

definition w_latin1 :: world where
  "w_latin1 = \<lparr>ext_available = True,
     ext_tags = [],
     ext_branches = [],
     ext_broken = [],
     ext_fs = [(''packages/core/src/core/prompts.ts'', File [CHR 0xE9])],
     trk_fs = [],
     trk_index = [], trk_commits = [], trk_commit_rejected = False,
     sh_beyond = [], trace = []\<rparr>"

definition w_source :: world where
  "w_source = \<lparr>ext_available = True,
     ext_tags = [],
     ext_branches = [],
     ext_broken = [],
     ext_fs = [(''packages/core/src/core/prompts.ts'', File (utf8_encode [0x61, 0xE9, 0x20AC, 0x1F600]))],
     trk_fs = [],
     trk_index = [], trk_commits = [], trk_commit_rejected = False,
     sh_beyond = [], trace = []\<rparr>"

section \<open>Properties\<close>

subsection \<open>Lines of a text\<close>

lemma js_split_not_Nil: "js_split sep s \<noteq> []"
  by (induction s) (auto split: list.splits)

lemma js_split_line: "sep \<notin> set a \<Longrightarrow> js_split sep (a @ sep # b) = a # js_split sep b"
  by (induction a) (auto split: list.splits simp: js_split_not_Nil)

lemma js_split_single: "sep \<notin> set a \<Longrightarrow> js_split sep a = [a]"
  by (induction a) (auto split: list.splits)

lemma js_split_no_sep: "x \<in> set (js_split sep s) \<Longrightarrow> sep \<notin> set x"
  by (induction s arbitrary: x) (auto split: if_splits list.splits)

subsection \<open>The commit message\<close>

lemma foldl_append_each: "foldl (\<lambda>m x. m @ f x) acc xs = acc @ concat (map f xs)"
  by (induction xs arbitrary: acc) auto

lemma commitMessage_text:
  "commitMessage tag extracted missing =
     ''Add metadata for '' @ tag @ [NL] @ [NL] @ ''Extracted:'' @ [NL] @
     concat (map (\<lambda>l. ''- '' @ l @ [NL]) extracted) @
     (if missing = [] then []
      else [NL] @ ''Missing:'' @ [NL] @ concat (map (\<lambda>l. ''- '' @ l @ [NL]) missing))"
  by (simp add: commitMessage_def Let_def foldl_append_each)

lemma js_split_bullets:
  "\<forall>l \<in> set xs. NL \<notin> set l \<Longrightarrow>
   js_split NL (concat (map (\<lambda>l. ''- '' @ l @ [NL]) xs) @ rest) =
     map (\<lambda>l. ''- '' @ l) xs @ js_split NL rest"
proof (induction xs)
  case Nil
  then show ?case by simp
next
  case (Cons x xs)
  have "NL \<notin> set (''- '' @ x)"
    using Cons.prems by simp
  then have "js_split NL ((''- '' @ x) @ NL # (concat (map (\<lambda>l. ''- '' @ l @ [NL]) xs) @ rest))
      = (''- '' @ x) # js_split NL (concat (map (\<lambda>l. ''- '' @ l @ [NL]) xs) @ rest)"
    by (rule js_split_line)
  then show ?case
    using Cons by simp
qed

lemma commitMessage_lines:
  assumes "NL \<notin> set tag" and "\<forall>l \<in> set extracted \<union> set missing. NL \<notin> set l"
  shows "js_split NL (commitMessage tag extracted missing) =
     [''Add metadata for '' @ tag, [], ''Extracted:''] @ map (\<lambda>l. ''- '' @ l) extracted @
     (if missing = [] then [] else [[], ''Missing:''] @ map (\<lambda>l. ''- '' @ l) missing) @ [[]]"
proof -
  let ?b = "\<lambda>xs. concat (map (\<lambda>l. ''- '' @ l @ [NL]) xs)"
  let ?tail = "(if missing = [] then [] else [NL] @ ''Missing:'' @ [NL] @ ?b missing)"
  have t: "js_split NL ?tail =
      (if missing = [] then [] else [[], ''Missing:''] @ map (\<lambda>l. ''- '' @ l) missing) @ [[]]"
  proof (cases "missing = []")
    case True
    then show ?thesis by simp
  next
    case False
    have "js_split NL (?b missing @ []) = map (\<lambda>l. ''- '' @ l) missing @ js_split NL []"
      using assms(2) by (intro js_split_bullets) auto
    then show ?thesis
      using False by simp
  qed
  have e: "js_split NL (?b extracted @ ?tail) = map (\<lambda>l. ''- '' @ l) extracted @ js_split NL ?tail"
    using assms(2) by (intro js_split_bullets) auto
  have h: "js_split NL ((''Add metadata for '' @ tag) @ NL # NL # ''Extracted:'' @ NL # (?b extracted @ ?tail))
     = (''Add metadata for '' @ tag) # js_split NL (NL # ''Extracted:'' @ NL # (?b extracted @ ?tail))"
    using assms(1) by (intro js_split_line) auto
  have h2: "js_split NL (NL # ''Extracted:'' @ NL # (?b extracted @ ?tail)) =
      [] # ''Extracted:'' # js_split NL (?b extracted @ ?tail)"
    using js_split_line[of NL "''Extracted:''" "?b extracted @ ?tail"] by simp
  show ?thesis
    unfolding commitMessage_text using h h2 e t by simp
qed

text \<open>
  C3. For every tag and every two lists of labels, the message is the line
  \<^verbatim>\<open>Add metadata for <tag>\<close>, an empty line, the line \<^verbatim>\<open>Extracted:\<close> and a line
  \<^verbatim>\<open>- <label>\<close> for each extracted label in order; then, only when the list of missing
  labels is not empty, an empty line, the line \<^verbatim>\<open>Missing:\<close> and a line \<^verbatim>\<open>- <label>\<close> for
  each missing label. The first conjunct is the text itself; the second reads it line by
  line, for a tag and labels that hold no line break (a tag comes from splitting the tag
  listing at line breaks, the labels are those of \<open>SOURCE_FILES\<close>).
\<close>

theorem commitMessage_format:
  "commitMessage tag extracted missing =
     ''Add metadata for '' @ tag @ [NL] @ [NL] @ ''Extracted:'' @ [NL] @
     concat (map (\<lambda>l. ''- '' @ l @ [NL]) extracted) @
     (if missing = [] then []
      else [NL] @ ''Missing:'' @ [NL] @ concat (map (\<lambda>l. ''- '' @ l @ [NL]) missing))
   \<and> (NL \<notin> set tag \<and> (\<forall>l \<in> set extracted \<union> set missing. NL \<notin> set l) \<longrightarrow>
        js_split NL (commitMessage tag extracted missing) =
          [''Add metadata for '' @ tag, [], ''Extracted:''] @ map (\<lambda>l. ''- '' @ l) extracted @
          (if missing = [] then [] else [[], ''Missing:''] @ map (\<lambda>l. ''- '' @ l) missing) @
          [[]])"
  using commitMessage_text commitMessage_lines by blast

theorem commitMessage_format_witness:
  "js_split NL (commitMessage ''v0.5.0'' [''Core prompts''] [''Tool registry'']) =
     [''Add metadata for v0.5.0'', [], ''Extracted:'', ''- Core prompts'', [], ''Missing:'',
      ''- Tool registry'', []]"
  using commitMessage_format[of "''v0.5.0''" "[''Core prompts'']" "[''Tool registry'']"]
  by simp

text \<open>
  C10. The header \<^verbatim>\<open>Extracted:\<close> is always written, right after the first line and the
  empty line, also for an empty list of extracted labels (the message then has the
  header and no bullet under it); the header \<^verbatim>\<open>Missing:\<close> is a line of the message
  exactly when the list of missing labels is not empty.
\<close>

theorem commitMessage_headers:
  "prefix (''Add metadata for '' @ tag @ [NL, NL] @ ''Extracted:'' @ [NL])
     (commitMessage tag extracted missing)
   \<and> commitMessage tag [] [] = ''Add metadata for '' @ tag @ [NL, NL] @ ''Extracted:'' @ [NL]
   \<and> (NL \<notin> set tag \<and> (\<forall>l \<in> set extracted \<union> set missing. NL \<notin> set l) \<longrightarrow>
        ''Extracted:'' \<in> set (js_split NL (commitMessage tag extracted missing)) \<and>
        (''Missing:'' \<in> set (js_split NL (commitMessage tag extracted missing)) \<longleftrightarrow>
           missing \<noteq> []))"
proof (intro conjI impI)
  show "prefix (''Add metadata for '' @ tag @ [NL, NL] @ ''Extracted:'' @ [NL])
     (commitMessage tag extracted missing)"
    unfolding commitMessage_text by (simp add: prefix_def)
  show "commitMessage tag [] [] = ''Add metadata for '' @ tag @ [NL, NL] @ ''Extracted:'' @ [NL]"
    unfolding commitMessage_text by simp
next
  assume a: "NL \<notin> set tag \<and> (\<forall>l \<in> set extracted \<union> set missing. NL \<notin> set l)"
  then have l: "js_split NL (commitMessage tag extracted missing) =
     [''Add metadata for '' @ tag, [], ''Extracted:''] @ map (\<lambda>l. ''- '' @ l) extracted @
     (if missing = [] then [] else [[], ''Missing:''] @ map (\<lambda>l. ''- '' @ l) missing) @ [[]]"
    using commitMessage_lines by blast
  show "''Extracted:'' \<in> set (js_split NL (commitMessage tag extracted missing))"
    unfolding l by simp
  show "''Missing:'' \<in> set (js_split NL (commitMessage tag extracted missing)) \<longleftrightarrow>
           missing \<noteq> []"
    unfolding l by auto
qed

theorem commitMessage_headers_witness:
  "''Extracted:'' \<in> set (js_split NL (commitMessage ''v0.5.0'' [] [''Core prompts'', ''Tool registry'']))
   \<and> ''Missing:'' \<in> set (js_split NL (commitMessage ''v0.5.0'' [] [''Core prompts'', ''Tool registry'']))
   \<and> ''Extracted:'' \<in> set (js_split NL (commitMessage ''v0.5.0'' [''Core prompts'', ''Tool registry''] []))
   \<and> ''Missing:'' \<notin> set (js_split NL (commitMessage ''v0.5.0'' [''Core prompts'', ''Tool registry''] []))"
  using commitMessage_headers[of "''v0.5.0''" "[]" "[''Core prompts'', ''Tool registry'']"]
    commitMessage_headers[of "''v0.5.0''" "[''Core prompts'', ''Tool registry'']" "[]"]
  by simp

subsection \<open>The list of operations only grows\<close>

lemma iterated_append: "iterated (a @ b) = iterated a @ iterated b"
  by (induction a rule: iterated.induct) auto

lemma trace_emit: "trace (emit ev w) = trace w @ [ev]"
  by (simp add: emit_def)

lemma git_trace: "git r c w = Some (out, w') \<Longrightarrow> trace w' = trace w"
  by (cases r; cases c) (auto split: if_splits option.splits)

lemma set_fs_trace: "trace (set_fs r t w) = trace w"
  by (cases r) (simp_all add: set_fs_def)

lemma quiet_return: "quiet (io_return x)"
  by (simp add: quiet_def io_return_def)

lemma quiet_bind:
  assumes "quiet m" and "\<And>x. quiet (k x)"
  shows "quiet (io_bind m k)"
  unfolding quiet_def
proof
  fix w
  obtain r w1 where m: "m w = (r, w1)"
    by (cases "m w")
  from assms(1) obtain e1 where e1: "trace w1 = trace w @ e1" "iterated e1 = []"
    unfolding quiet_def using m by (metis snd_conv)
  show "\<exists>evs. trace (snd (io_bind m k w)) = trace w @ evs \<and> iterated evs = []"
  proof (cases r)
    case (Return x)
    from assms(2)[of x] obtain e2 where
      "trace (snd (k x w1)) = trace w1 @ e2" "iterated e2 = []"
      unfolding quiet_def by blast
    then show ?thesis
      using m Return e1 by (auto simp: io_bind_def iterated_append intro!: exI[of _ "e1 @ e2"])
  next
    case (Throw e)
    then show ?thesis
      using m e1 by (auto simp: io_bind_def)
  next
    case (Exit n)
    then show ?thesis
      using m e1 by (auto simp: io_bind_def)
  qed
qed

lemma quiet_catch:
  assumes "quiet m" and "\<And>e. quiet (h e)"
  shows "quiet (io_catch m h)"
  unfolding quiet_def
proof
  fix w
  obtain r w1 where m: "m w = (r, w1)"
    by (cases "m w")
  from assms(1) obtain e1 where e1: "trace w1 = trace w @ e1" "iterated e1 = []"
    unfolding quiet_def using m by (metis snd_conv)
  show "\<exists>evs. trace (snd (io_catch m h w)) = trace w @ evs \<and> iterated evs = []"
  proof (cases r)
    case (Throw e)
    from assms(2)[of e] obtain e2 where
      "trace (snd (h e w1)) = trace w1 @ e2" "iterated e2 = []"
      unfolding quiet_def by blast
    then show ?thesis
      using m Throw e1 by (auto simp: io_catch_def iterated_append intro!: exI[of _ "e1 @ e2"])
  next
    case (Return x)
    then show ?thesis
      using m e1 by (auto simp: io_catch_def)
  next
    case (Exit n)
    then show ?thesis
      using m e1 by (auto simp: io_catch_def)
  qed
qed

lemma quiet_if: "quiet a \<Longrightarrow> quiet b \<Longrightarrow> quiet (if c then a else b)"
  by simp

lemma execAsync_reads:
  "sh c = Reads c' \<Longrightarrow>
   execAsync c r w =
     (case git r c' (emit (Exec r c) w) of
        None \<Rightarrow> (Throw (ExecError r c), emit (Exec r c) w)
      | Some (out, w') \<Rightarrow> (Return out, w'))"
  by (simp add: execAsync_def)

lemma execAsync_plain:
  "sh c = Reads c \<Longrightarrow>
   execAsync c r w =
     (case git r c (emit (Exec r c) w) of
        None \<Rightarrow> (Throw (ExecError r c), emit (Exec r c) w)
      | Some (out, w') \<Rightarrow> (Return out, w'))"
  by (simp add: execAsync_def)

lemma execAsync_cases:
  "execAsync c r w = (Throw (ExecError r c), emit (Exec r c) w) \<or>
   (\<exists>out w'. execAsync c r w = (Return out, w') \<and> trace w' = trace w @ [Exec r c])"
  by (auto simp: execAsync_def trace_emit dest!: git_trace
      split: reading.splits option.splits)

lemma execAsync_trace: "trace (snd (execAsync c r w)) = trace w @ [Exec r c]"
  using execAsync_cases[of c r w] by (auto simp: trace_emit)

lemma quiet_execAsync: "quiet (execAsync c r)"
  unfolding quiet_def
proof
  fix w
  show "\<exists>evs. trace (snd (execAsync c r w)) = trace w @ evs \<and> iterated evs = []"
    by (intro exI[of _ "[Exec r c]"]) (simp add: execAsync_trace)
qed

lemma quiet_fs_access: "quiet (fs_access p)"
  by (auto simp: quiet_def fs_access_def trace_emit split: sum.splits intro!: exI[of _ "[FsAccess p]"])

lemma quiet_fs_readFile: "quiet (fs_readFile p)"
  by (auto simp: quiet_def fs_readFile_def trace_emit split: sum.splits intro!: exI[of _ "[FsReadFile p]"])

lemma sys_mkdir_trace: "sys_mkdir p w = Inr w' \<Longrightarrow> trace w' = trace w"
  by (auto simp: sys_mkdir_def Let_def set_fs_trace split: if_splits)

lemma sys_writeFile_trace: "sys_writeFile p c w = Inr w' \<Longrightarrow> trace w' = trace w"
  by (auto simp: sys_writeFile_def Let_def set_fs_trace split: if_splits)

lemma quiet_fs_mkdir: "quiet (fs_mkdir p)"
  by (auto simp: quiet_def fs_mkdir_def trace_emit split: sum.splits dest!: sys_mkdir_trace
      intro!: exI[of _ "[FsMkdir p]"])

lemma quiet_fs_writeFile: "quiet (fs_writeFile p c)"
  by (auto simp: quiet_def fs_writeFile_def trace_emit split: sum.splits dest!: sys_writeFile_trace
      intro!: exI[of _ "[FsWriteFile p c]"])

lemma quiet_console_log: "iterated [ConsoleLog m] = [] \<Longrightarrow> quiet (console_log m)"
  by (auto simp: quiet_def console_log_def trace_emit)

lemma quiet_console_error: "quiet (console_error m)"
  by (auto simp: quiet_def console_error_def trace_emit intro!: exI[of _ "[ConsoleError m]"])

lemmas quiet_intros =
  quiet_return quiet_bind quiet_catch quiet_if quiet_execAsync quiet_fs_access quiet_fs_readFile
  quiet_fs_mkdir quiet_fs_writeFile quiet_console_log quiet_console_error

lemma quiet_isVersionProcessed: "quiet (isVersionProcessed v)"
  unfolding isVersionProcessed_def by (intro quiet_intros)

lemma quiet_checkoutTag: "quiet (checkoutTag t)"
  unfolding checkoutTag_def by (intro quiet_intros)

lemma quiet_returnToMain: "quiet returnToMain"
  unfolding returnToMain_def by (intro quiet_intros)

lemma quiet_extractLoop: "quiet (extractLoop fs ex mi)"
  by (induction fs arbitrary: ex mi) (auto simp: extractFile_def Let_def intro!: quiet_intros)

lemma quiet_commitChanges: "quiet (commitChanges t ex mi)"
  unfolding commitChanges_def by (intro quiet_intros) simp_all


subsection \<open>Exits and rejections\<close>

lemma no_exit_return: "no_exit (io_return x)"
  by (simp add: no_exit_def io_return_def)

lemma no_exit_bind: "no_exit m \<Longrightarrow> (\<And>x. no_exit (k x)) \<Longrightarrow> no_exit (io_bind m k)"
  unfolding no_exit_def io_bind_def
  by (auto split: prod.splits outcome.splits) (metis fst_conv)+

lemma no_exit_catch: "no_exit m \<Longrightarrow> (\<And>e. no_exit (h e)) \<Longrightarrow> no_exit (io_catch m h)"
  unfolding no_exit_def io_catch_def
  by (auto split: prod.splits outcome.splits) (metis fst_conv)+

lemma no_exit_if: "no_exit a \<Longrightarrow> no_exit b \<Longrightarrow> no_exit (if c then a else b)"
  by simp

lemma no_exit_execAsync: "no_exit (execAsync c r)"
  unfolding no_exit_def
proof (intro allI)
  fix w n
  show "fst (execAsync c r w) \<noteq> Exit n"
    using execAsync_cases[of c r w] by auto
qed

lemma no_exit_fs_access: "no_exit (fs_access p)"
  by (auto simp: no_exit_def fs_access_def split: sum.splits)

lemma no_exit_fs_readFile: "no_exit (fs_readFile p)"
  by (auto simp: no_exit_def fs_readFile_def split: sum.splits)

lemma no_exit_fs_mkdir: "no_exit (fs_mkdir p)"
  by (auto simp: no_exit_def fs_mkdir_def split: sum.splits)

lemma no_exit_fs_writeFile: "no_exit (fs_writeFile p c)"
  by (auto simp: no_exit_def fs_writeFile_def split: sum.splits)

lemma no_exit_console_log: "no_exit (console_log m)"
  by (simp add: no_exit_def console_log_def)

lemma no_exit_console_error: "no_exit (console_error m)"
  by (simp add: no_exit_def console_error_def)

lemmas no_exit_intros =
  no_exit_return no_exit_bind no_exit_catch no_exit_if no_exit_execAsync no_exit_fs_access
  no_exit_fs_readFile no_exit_fs_mkdir no_exit_fs_writeFile no_exit_console_log
  no_exit_console_error

lemma returns_return: "returns (io_return x)"
  by (simp add: returns_def io_return_def)

lemma returns_bind: "returns m \<Longrightarrow> (\<And>x. returns (k x)) \<Longrightarrow> returns (io_bind m k)"
  unfolding returns_def io_bind_def
  by (auto split: prod.splits outcome.splits) (metis fst_conv outcome.distinct(1) outcome.distinct(3))+

lemma returns_catch: "no_exit m \<Longrightarrow> (\<And>e. returns (h e)) \<Longrightarrow> returns (io_catch m h)"
  unfolding returns_def no_exit_def io_catch_def
  by (auto split: prod.splits outcome.splits) (metis fst_conv)+

lemma returns_if: "returns a \<Longrightarrow> returns b \<Longrightarrow> returns (if c then a else b)"
  by simp

lemma returns_console_log: "returns (console_log m)"
  by (simp add: returns_def console_log_def)

lemma returns_console_error: "returns (console_error m)"
  by (simp add: returns_def console_error_def)

lemmas returns_intros =
  returns_return returns_bind returns_catch returns_if returns_console_log returns_console_error

lemma no_exit_isVersionProcessed: "no_exit (isVersionProcessed v)"
  unfolding isVersionProcessed_def by (intro no_exit_intros)

lemma returns_isVersionProcessed: "returns (isVersionProcessed v)"
  unfolding isVersionProcessed_def by (intro returns_intros no_exit_intros)

lemma no_exit_checkoutTag: "no_exit (checkoutTag t)"
  unfolding checkoutTag_def by (intro no_exit_intros)

lemma no_exit_extractLoop: "no_exit (extractLoop fs ex mi)"
  by (induction fs arbitrary: ex mi) (auto simp: extractFile_def Let_def intro!: no_exit_intros)

lemma returns_extractLoop: "returns (extractLoop fs ex mi)"
  by (induction fs arbitrary: ex mi)
     (auto simp: extractFile_def Let_def intro!: returns_intros no_exit_intros)

lemma no_exit_commitChanges: "no_exit (commitChanges t ex mi)"
  unfolding commitChanges_def by (intro no_exit_intros)


subsection \<open>The loop over the tags\<close>

lemma processTag_rest:
  "processTag i n tag w = (r, w') \<Longrightarrow>
   r = Return () \<and> (\<exists>evs. trace w' = trace w @ ConsoleLog (Processing (i + 1) n tag) # evs \<and>
                          iterated evs = [])"
proof -
  assume a: "processTag i n tag w = (r, w')"
  define rest where "rest =
     io_bind (isVersionProcessed tag) (\<lambda>alreadyProcessed.
     if alreadyProcessed then console_log Skipping
     else
       io_catch
         (io_bind (checkoutTag tag) (\<lambda>u.
          io_bind extractSources (\<lambda>r.
          io_bind (if length (fst r) > 0 then console_log (ExtractedList (fst r))
                   else io_return ()) (\<lambda>u.
          io_bind (if length (snd r) > 0 then console_log (MissingList (snd r))
                   else io_return ()) (\<lambda>u.
          io_bind (commitChanges tag (fst r) (snd r)) (\<lambda>u.
          console_log Blank))))))
         (\<lambda>e. io_bind (console_error (TagError tag e)) (\<lambda>u. console_log Blank)))"
  have q: "quiet rest"
    unfolding rest_def extractSources_def
    by (intro quiet_intros quiet_isVersionProcessed quiet_checkoutTag quiet_extractLoop
        quiet_commitChanges) simp_all
  have t: "returns rest"
    unfolding rest_def extractSources_def
    by (intro returns_intros no_exit_intros returns_isVersionProcessed no_exit_checkoutTag
        no_exit_extractLoop no_exit_commitChanges)
  have p: "processTag i n tag w = rest (emit (ConsoleLog (Processing (i + 1) n tag)) w)"
    by (simp add: processTag_def rest_def io_bind_def console_log_def)
  from t obtain x where "fst (rest (emit (ConsoleLog (Processing (i + 1) n tag)) w)) = Return x"
    unfolding returns_def by blast
  moreover from q obtain evs where
    "trace (snd (rest (emit (ConsoleLog (Processing (i + 1) n tag)) w))) =
       trace (emit (ConsoleLog (Processing (i + 1) n tag)) w) @ evs" "iterated evs = []"
    unfolding quiet_def by blast
  ultimately show ?thesis
    using a p by (auto simp: trace_emit)
qed

lemma processTags_all:
  "\<exists>w' evs. processTags i n tags w = (Return (), w') \<and> trace w' = trace w @ evs \<and>
             iterated evs = tags"
proof (induction tags arbitrary: i w)
  case Nil
  then show ?case by (simp add: io_return_def)
next
  case (Cons tag rest)
  obtain r w1 where b: "processTag i n tag w = (r, w1)"
    by (cases "processTag i n tag w")
  from processTag_rest[OF b] obtain e1 where
    r: "r = Return ()" and e1: "trace w1 = trace w @ ConsoleLog (Processing (i + 1) n tag) # e1"
      "iterated e1 = []"
    by blast
  from Cons.IH[of "i + 1" w1] obtain w2 e2 where
    l: "processTags (i + 1) n rest w1 = (Return (), w2)" "trace w2 = trace w1 @ e2"
      "iterated e2 = rest"
    by blast
  show ?case
    using b r e1 l
    by (auto simp: io_bind_def iterated_append
        intro!: exI[of _ "ConsoleLog (Processing (i + 1) n tag) # e1 @ e2"])
qed


subsection \<open>The ledger check\<close>

lemma trim_Nil_iff: "trim s = [] \<longleftrightarrow> (\<forall>c \<in> set s. js_white c)"
proof
  assume "trim s = []"
  then have a: "\<forall>c \<in> set (dropWhile js_white s). js_white c"
    by (simp add: trim_def dropWhile_eq_Nil_conv)
  have "dropWhile js_white s = []"
  proof (rule ccontr)
    assume n: "dropWhile js_white s \<noteq> []"
    then have "\<not> js_white (hd (dropWhile js_white s))"
      by (rule hd_dropWhile)
    moreover have "hd (dropWhile js_white s) \<in> set (dropWhile js_white s)"
      using n by simp
    ultimately show False
      using a by blast
  qed
  then show "\<forall>c \<in> set s. js_white c"
    by (simp add: dropWhile_eq_Nil_conv)
next
  assume "\<forall>c \<in> set s. js_white c"
  then have "dropWhile js_white s = []"
    by (simp add: dropWhile_eq_Nil_conv)
  then show "trim s = []"
    unfolding trim_def by (simp del: dropWhile_eq_Nil_conv)
qed







lemma keep_keep:
  "keep c (map_option (\<lambda>(q, a). (q, t @ a)) r) = map_option (\<lambda>(q, a). (q, (c # t) @ a)) r"
  by (cases r) (auto simp: keep_def)

lemma sh_scan_inert:
  "shell_inert t \<Longrightarrow>
   sh_scan Double (t @ u) = map_option (\<lambda>(q, a). (q, t @ a)) (sh_scan Double u)"
proof (induction t)
  case Nil
  show ?case
    by (cases "sh_scan Double u") auto
next
  case (Cons c t)
  then have "sh_scan Double ((c # t) @ u) = keep c (sh_scan Double (t @ u))"
    by (simp add: shell_inert_def)
  also have "\<dots> = map_option (\<lambda>(q, a). (q, (c # t) @ a)) (sh_scan Double u)"
    using Cons by (simp add: shell_inert_def keep_keep)
  finally show ?case .
qed

lemma sh_reads_inert: "shell_inert t \<Longrightarrow> sh_reads Double (t @ ''$'') = Reads (t @ ''$'')"
  by (simp add: sh_reads_def sh_scan_inert expands_def keep_def)

lemma sh_pattern:
  "shell_inert tag \<Longrightarrow>
   sh (GitLog (''Add metadata for '' @ tag @ ''$'')) = Reads (GitLog (''Add metadata for '' @ tag @ ''$''))"
  using sh_reads_inert[of "''Add metadata for '' @ tag"] by (simp add: shell_inert_def)

lemma inert_followed:
  "shell_inert tag \<Longrightarrow> followed (GitLog (''Add metadata for '' @ tag @ ''$''))"
  unfolding followed_def using sh_pattern[of tag] by simp












subsection \<open>The status of the tracking repository\<close>

lemma status_code_not_blank:
  "\<not> (h = i \<and> i = k) \<Longrightarrow> \<exists>c \<in> set (status_code h i k). \<not> js_white c"
  by (auto simp: status_code_def js_white_def)

lemma status_blank_iff: "trim (status_output w) = [] \<longleftrightarrow> status_paths w = []"
proof
  assume "status_paths w = []"
  then show "trim (status_output w) = []"
    by (simp add: status_output_def trim_def)
next
  assume b: "trim (status_output w) = []"
  show "status_paths w = []"
  proof (rule ccontr)
    assume "status_paths w \<noteq> []"
    then obtain p ps where ps: "status_paths w = p # ps"
      by (cases "status_paths w") auto
    then have "p \<in> set (status_paths w)"
      by simp
    then have "\<not> (map_of (head_tree w) p = map_of (trk_index w) p \<and>
                 map_of (trk_index w) p = file_at (trk_fs w) p)"
      unfolding status_paths_def by simp
    then obtain c where
      "c \<in> set (status_code (map_of (head_tree w) p) (map_of (trk_index w) p) (file_at (trk_fs w) p))"
      "\<not> js_white c"
      using status_code_not_blank by blast
    then have "\<exists>c \<in> set (status_output w). \<not> js_white c"
      unfolding status_output_def ps by auto
    then show False
      using b unfolding trim_Nil_iff by blast
  qed
qed

lemma status_paths_Nil_iff:
  "status_paths w = [] \<longleftrightarrow>
     (\<forall>p. map_of (head_tree w) p = map_of (trk_index w) p \<and>
          map_of (trk_index w) p = file_at (trk_fs w) p)"
proof
  assume r: "\<forall>p. map_of (head_tree w) p = map_of (trk_index w) p \<and>
          map_of (trk_index w) p = file_at (trk_fs w) p"
  then show "status_paths w = []"
    by (simp add: status_paths_def)
next
  assume e: "status_paths w = []"
  show "\<forall>p. map_of (head_tree w) p = map_of (trk_index w) p \<and>
          map_of (trk_index w) p = file_at (trk_fs w) p"
  proof
    fix p
    show "map_of (head_tree w) p = map_of (trk_index w) p \<and>
          map_of (trk_index w) p = file_at (trk_fs w) p"
    proof (cases "p \<in> set (map fst (head_tree w) @ map fst (trk_index w) @ map fst (trk_fs w))")
      case True
      then show ?thesis
        using e unfolding status_paths_def filter_empty_conv by auto
    next
      case False
      then have "map_of (head_tree w) p = None" "map_of (trk_index w) p = None"
        "map_of (trk_fs w) p = None"
        by (auto simp: map_of_eq_None_iff)
      then show ?thesis
        by (simp add: file_at_def)
    qed
  qed
qed

lemma map_of_staged: "map_of (staged t) p = file_at t p"
proof -
  have "map_of (List.map_filter (\<lambda>p. map_option (Pair p) (file_at t p)) ps) p =
      (if p \<in> set ps then file_at t p else None)" for ps
    by (induction ps) (auto simp: List.map_filter_simps split: option.splits)
  moreover have "p \<notin> set (map fst t) \<Longrightarrow> file_at t p = None"
  proof -
    assume "p \<notin> set (map fst t)"
    then have "map_of t p = None"
      by (simp add: map_of_eq_None_iff)
    then show ?thesis
      by (simp add: file_at_def)
  qed
  ultimately show ?thesis
    by (auto simp: staged_def)
qed

lemma same_tree_iff: "same_tree a b \<longleftrightarrow> (\<forall>p. map_of a p = map_of b p)"
proof
  assume "\<forall>p. map_of a p = map_of b p"
  then show "same_tree a b"
    by (simp add: same_tree_def list_all_iff)
next
  assume s: "same_tree a b"
  show "\<forall>p. map_of a p = map_of b p"
  proof
    fix p
    show "map_of a p = map_of b p"
    proof (cases "p \<in> set (map fst a @ map fst b)")
      case True
      then show ?thesis
        using s unfolding same_tree_def list_all_iff by blast
    next
      case False
      then have "map_of a p = None" "map_of b p = None"
        by (auto simp: map_of_eq_None_iff)
      then show ?thesis
        by simp
    qed
  qed
qed

lemma commit_keeps_history:
  "same_tree (trk_index w) (head_tree w) \<Longrightarrow>
   trk_commits (snd (execAsync (GitCommit m) COLLECTION_REPO_PATH w)) = trk_commits w"
  by (cases "sh_reads Double m")
     (auto simp: execAsync_def emit_def head_tree_def split: option.splits)

text \<open>
  C8. When \<^verbatim>\<open>git status --porcelain\<close> prints nothing, \<open>commitChanges\<close> runs the status
  query, prints that there is nothing to commit and returns: nothing is staged, nothing
  is committed, and the world is as before but for these two operations. The status
  prints nothing exactly when the last commit, the index and the working tree hold the
  same files. And whatever the index holds: when the files of the working tree are those
  of the last commit, \<open>commitChanges\<close> leaves the history as it is.
\<close>

theorem no_changes_no_commit:
  "(trim (status_output w) = [] \<longrightarrow>
      commitChanges tag extracted missing w =
        (Return (),
         w\<lparr>trace := trace w @ [Exec COLLECTION_REPO_PATH GitStatus, ConsoleLog NoChanges]\<rparr>))
   \<and> (trim (status_output w) = [] \<longleftrightarrow>
        (\<forall>p. map_of (head_tree w) p = map_of (trk_index w) p \<and>
             map_of (trk_index w) p = file_at (trk_fs w) p))
   \<and> ((\<forall>p. file_at (trk_fs w) p = map_of (head_tree w) p) \<longrightarrow>
        trk_commits (snd (commitChanges tag extracted missing w)) = trk_commits w)"
proof (intro conjI impI)
  assume "trim (status_output w) = []"
  then show "commitChanges tag extracted missing w =
        (Return (),
         w\<lparr>trace := trace w @ [Exec COLLECTION_REPO_PATH GitStatus, ConsoleLog NoChanges]\<rparr>)"
    by (simp add: commitChanges_def execAsync_def io_bind_def io_catch_def console_log_def
        emit_def status_output_def status_paths_def head_tree_def)
next
  show "trim (status_output w) = [] \<longleftrightarrow>
        (\<forall>p. map_of (head_tree w) p = map_of (trk_index w) p \<and>
             map_of (trk_index w) p = file_at (trk_fs w) p)"
    using status_blank_iff status_paths_Nil_iff by simp
next
  assume a: "\<forall>p. file_at (trk_fs w) p = map_of (head_tree w) p"
  then have s: "same_tree (staged (trk_fs w)) (head_tree w)"
    by (simp add: same_tree_iff map_of_staged)
  let ?m = "escapeQuotes (commitMessage tag extracted missing)"
  let ?w2 = "emit (Exec COLLECTION_REPO_PATH GitAdd) (emit (Exec COLLECTION_REPO_PATH GitStatus) w)
               \<lparr>trk_index := staged (trk_fs w)\<rparr>"
  have "same_tree (trk_index ?w2) (head_tree ?w2)"
    using s by (simp add: emit_def head_tree_def)
  from commit_keeps_history[OF this, of ?m]
  show "trk_commits (snd (commitChanges tag extracted missing w)) = trk_commits w"
    by (cases "execAsync (GitCommit ?m) COLLECTION_REPO_PATH ?w2")
       (auto simp: commitChanges_def execAsync_plain io_bind_def io_catch_def console_log_def
        console_error_def emit_def split: outcome.splits)
qed

theorem no_changes_no_commit_witness:
  "commitChanges ''v0.2'' [''Core prompts''] [''Tool registry''] w_done =
     (Return (),
      w_done\<lparr>trace := trace w_done @
         [Exec COLLECTION_REPO_PATH GitStatus, ConsoleLog NoChanges]\<rparr>)
   \<and> trk_commits (snd (commitChanges ''v0.2'' [''Core prompts''] [''Tool registry''] w_staged)) =
       trk_commits w_staged"
proof -
  have a: "trim (status_output w_done) = []"
    by code_simp
  have b: "\<forall>p. file_at (trk_fs w_staged) p = map_of (head_tree w_staged) p"
    by (simp add: w_staged_def w_done_def file_at_def head_tree_def)
  note t = no_changes_no_commit[of w_done "''v0.2''" "[''Core prompts'']" "[''Tool registry'']"]
    no_changes_no_commit[of w_staged "''v0.2''" "[''Core prompts'']" "[''Tool registry'']"]
  from t(1) a have "commitChanges ''v0.2'' [''Core prompts''] [''Tool registry''] w_done =
     (Return (),
      w_done\<lparr>trace := trace w_done @
         [Exec COLLECTION_REPO_PATH GitStatus, ConsoleLog NoChanges]\<rparr>)"
    by blast
  moreover from t(2) b have
    "trk_commits (snd (commitChanges ''v0.2'' [''Core prompts''] [''Tool registry''] w_staged)) =
       trk_commits w_staged"
    by blast
  ultimately show ?thesis
    by blast
qed

subsection \<open>The extraction\<close>

lemma extractFile_cases:
  "\<exists>w1. extractFile f ex mi w = (Return (ex @ [name f], mi), w1) \<or>
        extractFile f ex mi w = (Return (ex, mi @ [name f]), w1)"
  by (auto simp: extractFile_def Let_def io_catch_def io_bind_def io_return_def fs_access_def
      fs_readFile_def fs_mkdir_def fs_writeFile_def split: sum.splits)

lemma extractLoop_partition:
  "\<exists>ex' mi' w'. extractLoop files ex mi w = (Return (ex @ ex', mi @ mi'), w') \<and>
      mset ex' + mset mi' = mset (map name files) \<and>
      subseq ex' (map name files) \<and> subseq mi' (map name files) \<and>
      length ex' + length mi' = length files"
proof (induction files arbitrary: ex mi w)
  case Nil
  then show ?case
    by (simp add: io_return_def)
next
  case (Cons f files)
  from extractFile_cases[of f ex mi w] obtain w1 where
    "extractFile f ex mi w = (Return (ex @ [name f], mi), w1) \<or>
     extractFile f ex mi w = (Return (ex, mi @ [name f]), w1)"
    by blast
  then show ?case
  proof
    assume a: "extractFile f ex mi w = (Return (ex @ [name f], mi), w1)"
    from Cons.IH[of "ex @ [name f]" mi w1] obtain ex' mi' w' where
      "extractLoop files (ex @ [name f]) mi w1 = (Return ((ex @ [name f]) @ ex', mi @ mi'), w')"
      "mset ex' + mset mi' = mset (map name files)"
      "subseq ex' (map name files)" "subseq mi' (map name files)"
      "length ex' + length mi' = length files"
      by blast
    then show ?thesis
      using a by (auto simp: io_bind_def intro!: exI[of _ "name f # ex'"] exI[of _ mi'])
  next
    assume a: "extractFile f ex mi w = (Return (ex, mi @ [name f]), w1)"
    from Cons.IH[of ex "mi @ [name f]" w1] obtain ex' mi' w' where
      "extractLoop files ex (mi @ [name f]) w1 = (Return (ex @ ex', (mi @ [name f]) @ mi'), w')"
      "mset ex' + mset mi' = mset (map name files)"
      "subseq ex' (map name files)" "subseq mi' (map name files)"
      "length ex' + length mi' = length files"
      by blast
    then show ?thesis
      using a by (auto simp: io_bind_def intro!: exI[of _ ex'] exI[of _ "name f # mi'"])
  qed
qed

text \<open>
  C9. In every world \<open>extractSources\<close> returns two lists of labels that together are the
  labels of \<open>SOURCE_FILES\<close>, each once: no label is in both lists, each list keeps the
  order of \<open>SOURCE_FILES\<close>, and the two lengths add up to the number of files, which
  is 2.
\<close>

theorem extractSources_partition:
  "\<exists>extracted missing w'.
      extractSources w = (Return (extracted, missing), w') \<and>
      mset extracted + mset missing = mset (map name SOURCE_FILES) \<and>
      set extracted \<inter> set missing = {} \<and>
      subseq extracted (map name SOURCE_FILES) \<and> subseq missing (map name SOURCE_FILES) \<and>
      length extracted + length missing = length SOURCE_FILES \<and> length SOURCE_FILES = 2"
proof -
  from extractLoop_partition[of SOURCE_FILES "[]" "[]" w] obtain ex mi w' where
    e: "extractLoop SOURCE_FILES [] [] w = (Return (ex, mi), w')"
      "mset ex + mset mi = mset (map name SOURCE_FILES)"
      "subseq ex (map name SOURCE_FILES)" "subseq mi (map name SOURCE_FILES)"
      "length ex + length mi = length SOURCE_FILES"
    by auto
  have "distinct (map name SOURCE_FILES)"
    by (simp add: SOURCE_FILES_def)
  then have "distinct (ex @ mi)"
    using e(2) mset_eq_imp_distinct_iff[of "ex @ mi" "map name SOURCE_FILES"] by simp
  then have "set ex \<inter> set mi = {}"
    by simp
  moreover have "length SOURCE_FILES = 2"
    by (simp add: SOURCE_FILES_def)
  ultimately show ?thesis
    unfolding extractSources_def using e by blast
qed

subsection \<open>The command line and the two filters\<close>

lemma findIndex_absent: "findIndex p xs = -1 \<longleftrightarrow> (\<forall>x \<in> set xs. \<not> p x)"
proof (induction xs)
  case Nil
  then show ?case by simp
next
  case (Cons x xs)
  have "findIndex p ys \<ge> -1" for ys
    by (induction ys) (auto simp: Let_def)
  from this[of xs] have "findIndex p xs + 1 \<noteq> -1"
    by linarith
  then show ?case
    using Cons by (auto simp: Let_def)
qed

lemma findIndex_present:
  "\<exists>x \<in> set xs. p x \<Longrightarrow> findIndex p xs = int (length (takeWhile (\<lambda>x. \<not> p x) xs))"
  by (induction xs) (auto simp: Let_def findIndex_absent)

lemma indexOf_absent: "indexOf xs v = -1 \<longleftrightarrow> v \<notin> set xs"
  by (auto simp: indexOf_def findIndex_absent)

lemma slice_from_indexOf:
  "v \<in> set xs \<Longrightarrow> slice_from xs (indexOf xs v) = dropWhile (\<lambda>t. t \<noteq> v) xs"
  using findIndex_present[of xs "\<lambda>x. x = v"]
  by (auto simp: slice_from_def indexOf_def dropWhile_eq_drop)

lemma slice_to_positive: "0 < n \<Longrightarrow> slice_to xs n = take (nat n) xs"
  by (auto simp: slice_to_def Let_def min_def)

lemma getAllTags_available:
  "ext_available w \<Longrightarrow>
   getAllTags w = (Return (enumerated w), emit (Exec GEMINI_REPO_PATH GitTag) w)"
  by (simp add: enumerated_def getAllTags_def execAsync_def io_bind_def io_return_def emit_def)

lemma getAllTags_unavailable:
  "\<not> ext_available w \<Longrightarrow>
   getAllTags w = (Throw (ExecError GEMINI_REPO_PATH GitTag), emit (Exec GEMINI_REPO_PATH GitTag) w)"
  by (simp add: getAllTags_def execAsync_def io_bind_def io_return_def emit_def)

lemma enumerated_emit: "enumerated (emit ev w) = enumerated w"
  by (simp add: enumerated_def getAllTags_def execAsync_def io_bind_def io_return_def emit_def)

lemma startup_available:
  "ext_available w \<Longrightarrow>
   startup argv w =
     selectTags (startFromVersion argv) (limit argv) (enumerated w)
       (emit (ConsoleLog (Found (length (enumerated w))))
          (emit (Exec GEMINI_REPO_PATH GitTag) (emit (ConsoleLog Banner) w)))"
proof -
  assume "ext_available w"
  then have "ext_available (emit (ConsoleLog Banner) w)"
    by (simp add: emit_def)
  from getAllTags_available[OF this] show ?thesis
    by (simp add: startup_def io_bind_def console_log_def enumerated_emit)
qed

lemma startup_unavailable:
  "\<not> ext_available w \<Longrightarrow> fst (startup argv w) = Throw (ExecError GEMINI_REPO_PATH GitTag)"
proof -
  assume "\<not> ext_available w"
  then have "\<not> ext_available (emit (ConsoleLog Banner) w)"
    by (simp add: emit_def)
  from getAllTags_unavailable[OF this] show ?thesis
    by (simp add: startup_def io_bind_def console_log_def)
qed

lemma filterStartFrom_none:
  "startFrom = None \<or> startFrom = Some [] \<Longrightarrow>
   filterStartFrom startFrom allTags w = (Return allTags, w)"
  by (auto simp: filterStartFrom_def io_return_def)

lemma filterStartFrom_absent:
  "v \<noteq> [] \<Longrightarrow> v \<notin> set allTags \<Longrightarrow>
   filterStartFrom (Some v) allTags w =
     (Exit 1, emit (ProcessExit 1) (emit (ConsoleError (VersionNotFound v)) w))"
  by (simp add: filterStartFrom_def indexOf_absent io_bind_def console_error_def process_exit_def)

lemma filterStartFrom_present:
  "v \<noteq> [] \<Longrightarrow> v \<in> set allTags \<Longrightarrow>
   filterStartFrom (Some v) allTags w =
     (Return (dropWhile (\<lambda>t. t \<noteq> v) allTags),
      emit (ConsoleLog (StartingFrom v (length (dropWhile (\<lambda>t. t \<noteq> v) allTags)))) w)"
  using indexOf_absent[of allTags v]
  by (simp add: filterStartFrom_def slice_from_indexOf io_bind_def io_return_def console_log_def)

lemma limitTags_positive:
  "0 < n \<Longrightarrow>
   limitTags (Some (Num n)) tags w = (Return (take (nat n) tags), emit (ConsoleLog (Limiting n)) w)"
  by (simp add: limitTags_def slice_to_positive io_bind_def io_return_def console_log_def)

lemma quiet_process_exit: "quiet (process_exit n)"
  by (auto simp: quiet_def process_exit_def trace_emit intro!: exI[of _ "[ProcessExit n]"])

lemma quiet_startup: "quiet (startup argv)"
  unfolding startup_def getAllTags_def selectTags_def filterStartFrom_def limitTags_def
  by (auto simp: Let_def split: option.splits number.splits
      intro!: quiet_intros quiet_process_exit)

lemma main_iterated:
  assumes "startup argv w = (Return ts, w0)"
  shows "\<exists>evs. trace (snd (main argv w)) = trace w @ evs \<and> iterated evs = ts"
proof -
  from quiet_startup[of argv] assms obtain e0 where
    e0: "trace w0 = trace w @ e0" "iterated e0 = []"
    unfolding quiet_def by (metis snd_conv)
  from processTags_all[of 0 "length ts" ts w0] obtain w1 e1 where
    l: "processTags 0 (length ts) ts w0 = (Return (), w1)" "trace w1 = trace w0 @ e1"
      "iterated e1 = ts"
    by blast
  have "quiet (io_bind returnToMain (\<lambda>u. console_log Complete))"
    by (intro quiet_intros quiet_returnToMain) simp
  then obtain e2 where
    e2: "trace (snd (io_bind returnToMain (\<lambda>u. console_log Complete) w1)) = trace w1 @ e2"
      "iterated e2 = []"
    unfolding quiet_def by blast
  have "main argv w = io_bind returnToMain (\<lambda>u. console_log Complete) w1"
    using assms l(1) by (simp add: main_def io_bind_def)
  then show ?thesis
    using e0 l e2 by (auto simp: iterated_append intro!: exI[of _ "e0 @ e1 @ e2"])
qed

lemma findIndex_first:
  assumes "\<forall>a \<in> set pre. \<not> p a" and "p x"
  shows "findIndex p (pre @ x # post) = int (length pre)"
proof -
  have "takeWhile (\<lambda>a. \<not> p a) (pre @ x # post) = pre"
    using assms by (simp add: takeWhile_append2)
  then show ?thesis
    using assms(2) findIndex_present[of "pre @ x # post" p] by simp
qed

lemma option_value:
  assumes "CHR ''='' \<notin> set key" and "CHR ''='' \<notin> set val"
  shows "js_index (js_split CHR ''='' (key @ CHR ''='' # val)) 1 = Some val"
  using assms by (simp add: js_split_line js_split_single js_index_def)

lemma startFromVersion_written:
  assumes "\<forall>a \<in> set pre. \<not> startsWith a ''--start-from=''" and "CHR ''='' \<notin> set tag"
  shows "startFromVersion (pre @ (''--start-from='' @ tag) # post) = Some tag"
proof -
  have "findIndex (\<lambda>arg. startsWith arg ''--start-from='') (pre @ (''--start-from='' @ tag) # post) =
      int (length pre)"
    using assms(1) by (intro findIndex_first) (simp_all add: startsWith_def)
  moreover have "js_index (js_split CHR ''='' (''--start-from'' @ CHR ''='' # tag)) 1 = Some tag"
    using assms(2) by (intro option_value) simp_all
  ultimately show ?thesis
    by (simp add: startFromVersion_def js_index_def)
qed

lemma start_from_parsed:
  assumes "startFromVersion argv = Some v" and "v \<noteq> []" and "ext_available w"
  shows "(v \<notin> set (enumerated w) \<longrightarrow>
            (\<exists>w'. w' = w\<lparr>trace := trace w @
                       [ConsoleLog Banner, Exec GEMINI_REPO_PATH GitTag,
                        ConsoleLog (Found (length (enumerated w))),
                        ConsoleError (VersionNotFound v), ProcessExit 1]\<rparr> \<and>
                  startup argv w = (Exit 1, w') \<and> main argv w = (Exit 1, w') \<and>
                  run argv w = (1, w')))
       \<and> (v \<in> set (enumerated w) \<longrightarrow>
            (\<exists>w'. startup argv w =
               limitTags (limit argv) (dropWhile (\<lambda>t. t \<noteq> v) (enumerated w)) w') \<and>
            hd (dropWhile (\<lambda>t. t \<noteq> v) (enumerated w)) = v \<and>
            suffix (dropWhile (\<lambda>t. t \<noteq> v) (enumerated w)) (enumerated w) \<and>
            (limit argv = None \<longrightarrow>
               (\<exists>evs. trace (snd (main argv w)) = trace w @ evs \<and>
                      iterated evs = dropWhile (\<lambda>t. t \<noteq> v) (enumerated w))))"
proof (intro conjI impI)
  assume a: "v \<notin> set (enumerated w)"
  let ?w' = "w\<lparr>trace := trace w @
                       [ConsoleLog Banner, Exec GEMINI_REPO_PATH GitTag,
                        ConsoleLog (Found (length (enumerated w))),
                        ConsoleError (VersionNotFound v), ProcessExit 1]\<rparr>"
  have e: "startup argv w = (Exit 1, ?w')"
    using assms a
    by (simp add: startup_available selectTags_def filterStartFrom_absent io_bind_def)
       (simp add: emit_def)
  have m: "main argv w = (Exit 1, ?w')"
    by (simp add: main_def e io_bind_def)
  have "run argv w = (1, ?w')"
    by (simp add: run_def m)
  then show "\<exists>w'. w' = ?w' \<and> startup argv w = (Exit 1, w') \<and> main argv w = (Exit 1, w') \<and>
                  run argv w = (1, w')"
    using e m by blast
next
  assume a: "v \<in> set (enumerated w)"
  let ?F = "dropWhile (\<lambda>t. t \<noteq> v) (enumerated w)"
  have "startup argv w = limitTags (limit argv) ?F
      (emit (ConsoleLog (StartingFrom v (length ?F)))
         (emit (ConsoleLog (Found (length (enumerated w))))
            (emit (Exec GEMINI_REPO_PATH GitTag) (emit (ConsoleLog Banner) w))))"
    using assms a
    by (simp add: startup_available selectTags_def filterStartFrom_present io_bind_def)
  then show s: "\<exists>w'. startup argv w = limitTags (limit argv) ?F w'"
    by (rule exI)
  show "hd ?F = v"
    using a hd_dropWhile[of "\<lambda>t. t \<noteq> v" "enumerated w"] by (simp add: dropWhile_eq_Nil_conv)
  show "suffix ?F (enumerated w)"
    by (rule suffix_dropWhile)
  assume "limit argv = None"
  with s obtain w' where "startup argv w = (Return ?F, w')"
    by (auto simp: limitTags_def io_return_def)
  then show "\<exists>evs. trace (snd (main argv w)) = trace w @ evs \<and> iterated evs = ?F"
    by (rule main_iterated)
qed

text \<open>
  C5. Let \<^verbatim>\<open>--start-from=<tag>\<close> be the first argument of the command line that begins
  with \<^verbatim>\<open>--start-from=\<close>, with a tag that is not empty and holds no equals sign, and let
  the tag listing succeed. When the tag is not among the enumerated tags, the script
  prints the banner, lists the tags, prints their number and the error, and exits with
  status 1: these five operations are all it does, so no checkout, no file operation and
  no commit. When the tag is among them, the list handed to the limit is the enumerated
  list from the first occurrence of the tag on, the tag included; without a limit the
  loop comes to exactly these tags.
\<close>

theorem start_from_filter:
  assumes "argv = pre @ (''--start-from='' @ tag) # post"
    and "\<forall>a \<in> set pre. \<not> startsWith a ''--start-from=''"
    and "tag \<noteq> []" and "CHR ''='' \<notin> set tag"
    and "ext_available w"
  shows "(tag \<notin> set (enumerated w) \<longrightarrow>
            (\<exists>w'. w' = w\<lparr>trace := trace w @
                       [ConsoleLog Banner, Exec GEMINI_REPO_PATH GitTag,
                        ConsoleLog (Found (length (enumerated w))),
                        ConsoleError (VersionNotFound tag), ProcessExit 1]\<rparr> \<and>
                  startup argv w = (Exit 1, w') \<and> main argv w = (Exit 1, w') \<and>
                  run argv w = (1, w')))
       \<and> (tag \<in> set (enumerated w) \<longrightarrow>
            (\<exists>w'. startup argv w =
               limitTags (limit argv) (dropWhile (\<lambda>t. t \<noteq> tag) (enumerated w)) w') \<and>
            hd (dropWhile (\<lambda>t. t \<noteq> tag) (enumerated w)) = tag \<and>
            suffix (dropWhile (\<lambda>t. t \<noteq> tag) (enumerated w)) (enumerated w) \<and>
            (limit argv = None \<longrightarrow>
               (\<exists>evs. trace (snd (main argv w)) = trace w @ evs \<and>
                      iterated evs = dropWhile (\<lambda>t. t \<noteq> tag) (enumerated w))))"
proof -
  have "startFromVersion argv = Some tag"
    unfolding assms(1) using assms(2,4) by (rule startFromVersion_written)
  then show ?thesis
    using assms(3,5) by (rule start_from_parsed)
qed

text \<open>
  C2, for a limit of at least 1. Let the command line give the limit \<open>N > 0\<close>, and
  let the script get as far as its list of tags. Then this list is the first \<open>N\<close> tags
  of the enumerated list, or, with a starting version, of the enumerated list from that
  version on: the limit cuts what the starting version has left. It holds at most
  \<open>min N |T|\<close> tags, in the order of the enumeration, and the loop comes to exactly
  these tags. (With the limit 0 the test \<^verbatim>\<open>if (limit)\<close> fails and nothing is cut: see the
  counterexample.)
\<close>

theorem limit_filter:
  assumes "limit argv = Some (Num N)" and "0 < N" and "startup argv w = (Return tags, w')"
  shows "\<exists>F. F = (case startFromVersion argv of
                    None \<Rightarrow> enumerated w
                  | Some v \<Rightarrow> if v = [] then enumerated w
                             else dropWhile (\<lambda>t. t \<noteq> v) (enumerated w)) \<and>
             tags = take (nat N) F \<and>
             length tags = min (nat N) (length F) \<and>
             length tags \<le> min (nat N) (length (enumerated w)) \<and>
             prefix tags F \<and> suffix F (enumerated w) \<and> subseq tags (enumerated w) \<and>
             (\<exists>evs. trace (snd (main argv w)) = trace w @ evs \<and> iterated evs = tags)"
proof -
  let ?T = "enumerated w"
  let ?F = "case startFromVersion argv of
              None \<Rightarrow> ?T
            | Some v \<Rightarrow> if v = [] then ?T else dropWhile (\<lambda>t. t \<noteq> v) ?T"
  let ?w1 = "emit (ConsoleLog (Found (length ?T)))
               (emit (Exec GEMINI_REPO_PATH GitTag) (emit (ConsoleLog Banner) w))"
  have av: "ext_available w"
    using assms(3) startup_unavailable[of w argv] by (cases "ext_available w") auto
  then have st: "startup argv w =
      io_bind (filterStartFrom (startFromVersion argv) ?T) (\<lambda>ts. limitTags (limit argv) ts) ?w1"
    by (simp add: startup_available selectTags_def)
  note r = assms(3)[unfolded st]
  have "\<exists>w2. filterStartFrom (startFromVersion argv) ?T ?w1 = (Return ?F, w2)"
  proof (cases "startFromVersion argv")
    case None
    then show ?thesis
      by (simp add: filterStartFrom_none)
  next
    case (Some v)
    show ?thesis
    proof (cases "v = []")
      case True
      then show ?thesis
        using Some by (simp add: filterStartFrom_none)
    next
      case False
      show ?thesis
      proof (cases "v \<in> set ?T")
        case True
        then show ?thesis
          using Some False by (simp add: filterStartFrom_present)
      next
        case n: False
        then show ?thesis
          using Some False r by (simp add: filterStartFrom_absent io_bind_def)
      qed
    qed
  qed
  then obtain w2 where "filterStartFrom (startFromVersion argv) ?T ?w1 = (Return ?F, w2)"
    by blast
  then have t: "tags = take (nat N) ?F"
    using assms(1,2) r by (simp add: io_bind_def limitTags_positive)
  define F where "F = ?F"
  have t': "tags = take (nat N) F"
    using t by (simp add: F_def)
  have sf: "suffix F ?T"
    by (auto simp: F_def suffix_dropWhile split: option.splits)
  then have len: "length F \<le> length ?T"
    by (rule suffix_length_le)
  have p: "prefix tags F"
    unfolding t' by (rule take_is_prefix)
  have sub: "subseq tags ?T"
  proof -
    have "subseq tags F"
      using p by (rule prefix_imp_subseq)
    moreover have "subseq F ?T"
      using sf by (rule suffix_imp_subseq)
    ultimately show ?thesis
      by (rule subseq_order.trans)
  qed
  have l1: "length tags = min (nat N) (length F)"
    unfolding t' by (simp add: min.commute)
  have l2: "length tags \<le> min (nat N) (length ?T)"
    using l1 len by simp
  have m: "\<exists>evs. trace (snd (main argv w)) = trace w @ evs \<and> iterated evs = tags"
    using assms(3) by (rule main_iterated)
  show ?thesis
    using t' sf p sub l1 l2 m unfolding F_def by (intro exI[of _ ?F]) blast
qed

theorem start_from_filter_witness:
  "run [''node'', ''collect.ts'', ''--start-from=v0.9.9''] w_three =
     (1, w_three\<lparr>trace :=
            [ConsoleLog Banner, Exec GEMINI_REPO_PATH GitTag, ConsoleLog (Found 3),
             ConsoleError (VersionNotFound ''v0.9.9''), ProcessExit 1]\<rparr>)
   \<and> (\<exists>evs. trace (snd (main [''node'', ''collect.ts'', ''--start-from=v0.2''] w_three)) = evs \<and>
          iterated evs = [''v0.2'', ''v0.3''])"
proof -
  have e: "enumerated w_three = [''v0.1'', ''v0.2'', ''v0.3'']"
    by code_simp
  have a: "ext_available w_three" "trace w_three = []"
    by (simp_all add: w_three_def)
  have p: "\<forall>a \<in> set [''node'', ''collect.ts'']. \<not> startsWith a ''--start-from=''"
    by code_simp
  have l: "limit ([''node'', ''collect.ts''] @ (''--start-from='' @ ''v0.2'') # []) = None"
    by code_simp
  from start_from_filter[OF refl p _ _ a(1), of "''v0.9.9''" "[]"] e a(2)
  have "run ([''node'', ''collect.ts''] @ (''--start-from='' @ ''v0.9.9'') # []) w_three =
     (1, w_three\<lparr>trace :=
            [ConsoleLog Banner, Exec GEMINI_REPO_PATH GitTag, ConsoleLog (Found 3),
             ConsoleError (VersionNotFound ''v0.9.9''), ProcessExit 1]\<rparr>)"
    by simp
  moreover from start_from_filter[OF refl p _ _ a(1), of "''v0.2''" "[]"] e a(2) l
  have "\<exists>evs. trace (snd (main ([''node'', ''collect.ts''] @ (''--start-from='' @ ''v0.2'') # []) w_three)) = evs \<and>
          iterated evs = [''v0.2'', ''v0.3'']"
    by simp
  ultimately show ?thesis
    by simp
qed

text \<open>
  Two command lines outside these conditions. With \<^verbatim>\<open>--start-from=v0.1=x\<close> the script
  takes \<^verbatim>\<open>v0.1\<close> for the starting version, so it exits with status 1 although the tag
  \<^verbatim>\<open>v0.1=x\<close> is among the enumerated tags. With \<^verbatim>\<open>--start-from=\<close> the starting version is
  the empty string, which is no enumerated tag, and the script exits with status 0 after
  a turn for every tag.
\<close>

theorem start_from_counterexample:
  "''v0.1=x'' \<in> set (enumerated w_equals)
   \<and> startFromVersion [''node'', ''collect.ts'', ''--start-from=v0.1=x''] = Some ''v0.1''
   \<and> fst (run [''node'', ''collect.ts'', ''--start-from=v0.1=x''] w_equals) = 1
   \<and> iterated (trace (snd (run [''node'', ''collect.ts'', ''--start-from=v0.1=x''] w_equals))) = []
   \<and> [] \<notin> set (enumerated w_three)
   \<and> startFromVersion [''node'', ''collect.ts'', ''--start-from=''] = Some []
   \<and> fst (run [''node'', ''collect.ts'', ''--start-from=''] w_three) = 0
   \<and> iterated (trace (snd (run [''node'', ''collect.ts'', ''--start-from=''] w_three))) =
       [''v0.1'', ''v0.2'', ''v0.3'']"
  by code_simp

theorem limit_filter_witness:
  "length [''v0.2''] \<le> min (nat 1) (length (enumerated w_three))
   \<and> (\<exists>evs. trace (snd (main [''node'', ''collect.ts'', ''--start-from=v0.2'', ''--limit=1''] w_three)) = evs \<and>
          iterated evs = [''v0.2''])"
proof -
  let ?argv = "[''node'', ''collect.ts'', ''--start-from=v0.2'', ''--limit=1'']"
  have l: "limit ?argv = Some (Num 1)"
    by code_simp
  have s: "startup ?argv w_three = (Return [''v0.2''], snd (startup ?argv w_three))"
    by code_simp
  have a: "trace w_three = []"
    by (simp add: w_three_def)
  from limit_filter[OF l _ s] a show ?thesis
    by auto
qed

theorem limit_zero_counterexample:
  "limit [''node'', ''collect.ts'', ''--limit=0''] = Some (Num 0)
   \<and> enumerated w_three = [''v0.1'', ''v0.2'', ''v0.3'']
   \<and> iterated (trace (snd (main [''node'', ''collect.ts'', ''--limit=0''] w_three))) =
       [''v0.1'', ''v0.2'', ''v0.3'']
   \<and> \<not> length (iterated (trace (snd (main [''node'', ''collect.ts'', ''--limit=0''] w_three))))
         \<le> min 0 (length (enumerated w_three))"
  by code_simp

subsection \<open>UTF-8\<close>

lemma decode_ascii:
  "cp < 0x80 \<Longrightarrow>
   utf8_decode_from 0 0 0x80 0xBF (cp # rest) = cp # utf8_decode_from 0 0 0x80 0xBF rest"
  by (subst utf8_decode_from.simps) simp

lemma decode_lead2:
  "0xC2 \<le> b \<Longrightarrow> b \<le> 0xDF \<Longrightarrow>
   utf8_decode_from 0 0 0x80 0xBF (b # rest) = utf8_decode_from (Suc 0) (b mod 32) 0x80 0xBF rest"
  by (subst utf8_decode_from.simps) simp

lemma decode_lead3:
  "0xE0 \<le> b \<Longrightarrow> b \<le> 0xEF \<Longrightarrow>
   utf8_decode_from 0 0 0x80 0xBF (b # rest) =
     utf8_decode_from (Suc (Suc 0)) (b mod 16) (if b = 0xE0 then 0xA0 else 0x80)
       (if b = 0xED then 0x9F else 0xBF) rest"
  by (subst utf8_decode_from.simps) (simp add: numeral_2_eq_2)

lemma decode_lead4:
  "0xF0 \<le> b \<Longrightarrow> b \<le> 0xF4 \<Longrightarrow>
   utf8_decode_from 0 0 0x80 0xBF (b # rest) =
     utf8_decode_from (Suc (Suc (Suc 0))) (b mod 8) (if b = 0xF0 then 0x90 else 0x80)
       (if b = 0xF4 then 0x8F else 0xBF) rest"
  by (subst utf8_decode_from.simps) (simp add: numeral_3_eq_3)

lemma decode_last:
  "lo \<le> b \<Longrightarrow> b \<le> hi \<Longrightarrow>
   utf8_decode_from (Suc 0) cp lo hi (b # rest) =
     (cp * 64 + b mod 64) # utf8_decode_from 0 0 0x80 0xBF rest"
  by (subst utf8_decode_from.simps) simp

lemma decode_cont:
  "lo \<le> b \<Longrightarrow> b \<le> hi \<Longrightarrow>
   utf8_decode_from (Suc (Suc n)) cp lo hi (b # rest) =
     utf8_decode_from (Suc n) (cp * 64 + b mod 64) 0x80 0xBF rest"
  by (subst utf8_decode_from.simps) simp


lemma mod_offset: "a < m \<Longrightarrow> (q * m + a) mod m = (a::nat)"
  by simp

lemma div_4096: "cp div 4096 = (cp::nat) div 64 div 64"
  by (simp add: div_mult2_eq)

lemma div_262144: "cp div 262144 = (cp::nat) div 64 div 64 div 64"
  by (simp add: div_mult2_eq)

lemma split_three: "((cp div 4096) * 64 + cp div 64 mod 64) * 64 + cp mod 64 = (cp::nat)"
  using div_mult_mod_eq[of cp 64] div_mult_mod_eq[of "cp div 64" 64]
  by (simp add: div_4096)

lemma split_four:
  "(((cp div 262144) * 64 + cp div 4096 mod 64) * 64 + cp div 64 mod 64) * 64 + cp mod 64 =
     (cp::nat)"
  using div_mult_mod_eq[of cp 64] div_mult_mod_eq[of "cp div 64" 64]
    div_mult_mod_eq[of "cp div 64 div 64" 64]
  by (simp add: div_4096 div_262144)

lemma decode_encode_cp:
  assumes "scalar cp"
  shows "utf8_decode_from 0 0 0x80 0xBF (utf8_encode_cp cp @ rest) =
     cp # utf8_decode_from 0 0 0x80 0xBF rest"
proof -
  consider (one) "cp < 0x80" | (two) "0x80 \<le> cp" "cp < 0x800"
    | (three) "0x800 \<le> cp" "cp < 0x10000" | (four) "0x10000 \<le> cp" "cp < 0x110000"
    using assms unfolding scalar_def by linarith
  then show ?thesis
  proof cases
    case one
    then show ?thesis
      using assms by (simp add: utf8_encode_cp_def decode_ascii)
  next
    case two
    define a where "a = cp div 64"
    define b where "b = cp mod 64"
    have cp: "a * 64 + b = cp"
      by (simp add: a_def b_def)
    have r: "b < 64" "a < 32"
      using two by (simp_all add: a_def b_def less_mult_imp_div_less)
    have lo: "2 \<le> a"
      using two(1) cp r by linarith
    have m: "(0xC0 + a) mod 32 = a" "(0x80 + b) mod 64 = b"
      using mod_offset[of a 32 6] mod_offset[of b 64 2] r by simp_all
    have "utf8_decode_from 0 0 0x80 0xBF ((0xC0 + a) # (0x80 + b) # rest) =
        cp # utf8_decode_from 0 0 0x80 0xBF rest"
      using r lo cp by (simp add: decode_lead2 decode_last m)
    then show ?thesis
      using assms two by (simp add: utf8_encode_cp_def a_def b_def)
  next
    case three
    define a where "a = cp div 4096"
    define b where "b = cp div 64 mod 64"
    define c where "c = cp mod 64"
    have cp: "(a * 64 + b) * 64 + c = cp"
      unfolding a_def b_def c_def by (rule split_three)
    have r: "a < 16" "b < 64" "c < 64"
      using three by (simp_all add: a_def b_def c_def less_mult_imp_div_less)
    have lo: "32 \<le> b" if "a = 0"
      using that three(1) cp r by auto
    have hi: "b < 32" if "a = 13"
      using that assms three cp r unfolding scalar_def by auto
    have m: "(0xE0 + a) mod 16 = a" "(0x80 + b) mod 64 = b" "(0x80 + c) mod 64 = c"
      using mod_offset[of a 16 14] mod_offset[of b 64 2] mod_offset[of c 64 2] r by simp_all
    define lo' :: nat where "lo' = (if 0xE0 + a = 0xE0 then 0xA0 else 0x80)"
    define hi' :: nat where "hi' = (if 0xE0 + a = 0xED then 0x9F else 0xBF)"
    have b1: "lo' \<le> 0x80 + b" "0x80 + b \<le> hi'"
      using lo hi r by (auto simp: lo'_def hi'_def)
    have b2: "(0x80::nat) \<le> 0x80 + c" "0x80 + c \<le> (0xBF::nat)"
      using r by simp_all
    have "utf8_decode_from 0 0 0x80 0xBF ((0xE0 + a) # (0x80 + b) # (0x80 + c) # rest) =
        utf8_decode_from (Suc (Suc 0)) a lo' hi' ((0x80 + b) # (0x80 + c) # rest)"
      unfolding lo'_def hi'_def using r decode_lead3[of "0xE0 + a"] by (simp add: m)
    also have "\<dots> = utf8_decode_from (Suc 0) (a * 64 + b) 0x80 0xBF ((0x80 + c) # rest)"
      using decode_cont[OF b1] by (simp add: m)
    also have "\<dots> = cp # utf8_decode_from 0 0 0x80 0xBF rest"
      using decode_last[OF b2] cp by (simp add: m)
    finally show ?thesis
      using assms three by (simp add: utf8_encode_cp_def a_def b_def c_def)
  next
    case four
    define a where "a = cp div 262144"
    define b where "b = cp div 4096 mod 64"
    define c where "c = cp div 64 mod 64"
    define d where "d = cp mod 64"
    have cp: "((a * 64 + b) * 64 + c) * 64 + d = cp"
      unfolding a_def b_def c_def d_def by (rule split_four)
    have r: "a < 5" "b < 64" "c < 64" "d < 64"
      using four by (simp_all add: a_def b_def c_def d_def less_mult_imp_div_less)
    have lo: "16 \<le> b" if "a = 0"
      using that four(1) cp r by auto
    have hi: "b < 16" if "a = 4"
      using that four(2) cp r by auto
    have m: "(0xF0 + a) mod 8 = a" "(0x80 + b) mod 64 = b" "(0x80 + c) mod 64 = c"
      "(0x80 + d) mod 64 = d"
      using mod_offset[of a 8 30] mod_offset[of b 64 2] mod_offset[of c 64 2]
        mod_offset[of d 64 2] r by simp_all
    define lo' :: nat where "lo' = (if 0xF0 + a = 0xF0 then 0x90 else 0x80)"
    define hi' :: nat where "hi' = (if 0xF0 + a = 0xF4 then 0x8F else 0xBF)"
    have b1: "lo' \<le> 0x80 + b" "0x80 + b \<le> hi'"
      using lo hi r by (auto simp: lo'_def hi'_def)
    have b2: "(0x80::nat) \<le> 0x80 + c" "0x80 + c \<le> (0xBF::nat)"
      using r by simp_all
    have b3: "(0x80::nat) \<le> 0x80 + d" "0x80 + d \<le> (0xBF::nat)"
      using r by simp_all
    have "utf8_decode_from 0 0 0x80 0xBF
        ((0xF0 + a) # (0x80 + b) # (0x80 + c) # (0x80 + d) # rest) =
        utf8_decode_from (Suc (Suc (Suc 0))) a lo' hi'
          ((0x80 + b) # (0x80 + c) # (0x80 + d) # rest)"
      unfolding lo'_def hi'_def using r decode_lead4[of "0xF0 + a"] by (simp add: m)
    also have "\<dots> = utf8_decode_from (Suc (Suc 0)) (a * 64 + b) 0x80 0xBF
        ((0x80 + c) # (0x80 + d) # rest)"
      using decode_cont[OF b1] by (simp add: m)
    also have "\<dots> = utf8_decode_from (Suc 0) ((a * 64 + b) * 64 + c) 0x80 0xBF
        ((0x80 + d) # rest)"
      using decode_cont[OF b2] by (simp add: m)
    also have "\<dots> = cp # utf8_decode_from 0 0 0x80 0xBF rest"
      using decode_last[OF b3] cp by (simp add: m)
    finally show ?thesis
      using assms four by (simp add: utf8_encode_cp_def a_def b_def c_def d_def)
  qed
qed

lemma encode_cp_bytes: "b \<in> set (utf8_encode_cp cp) \<Longrightarrow> b < 256"
proof -
  assume b: "b \<in> set (utf8_encode_cp cp)"
  show ?thesis
  proof (cases "scalar cp")
    case False
    then show ?thesis
      using b by (auto simp: utf8_encode_cp_def)
  next
    case True
    then have "cp < 0x110000"
      unfolding scalar_def by linarith
    then have "cp div 262144 < 5" "cp div 4096 mod 64 < 64" "cp div 64 mod 64 < 64"
      "cp mod 64 < 64"
      by (simp_all add: less_mult_imp_div_less)
    moreover have "cp < 0x800 \<Longrightarrow> cp div 64 < 32" "cp < 0x10000 \<Longrightarrow> cp div 4096 < 16"
      by (simp_all add: less_mult_imp_div_less)
    ultimately show ?thesis
      using b True by (auto simp: utf8_encode_cp_def split: if_splits)
  qed
qed

lemma of_char_char_of_bytes: "\<forall>b \<in> set bs. b < 256 \<Longrightarrow> map of_char (map char_of bs) = (bs::nat list)"
  by (induction bs) auto

lemma decode_encode_concat:
  "list_all scalar cps \<Longrightarrow>
   utf8_decode_from 0 0 0x80 0xBF (concat (map utf8_encode_cp cps)) = cps"
proof (induction cps)
  case Nil
  then show ?case
    by (simp add: utf8_decode_from.simps)
next
  case (Cons cp cps)
  then show ?case
    using decode_encode_cp[of cp "concat (map utf8_encode_cp cps)"] by simp
qed

lemma utf8_decode_encode: "list_all scalar cps \<Longrightarrow> utf8_decode (utf8_encode cps) = cps"
proof -
  assume s: "list_all scalar cps"
  have "\<forall>b \<in> set (concat (map utf8_encode_cp cps)). b < 256"
    using encode_cp_bytes by auto
  then have "map of_char (map char_of (concat (map utf8_encode_cp cps))) =
      concat (map utf8_encode_cp cps)"
    by (rule of_char_char_of_bytes)
  then show ?thesis
    unfolding utf8_decode_def utf8_encode_def using s by (simp only: decode_encode_concat)
qed

subsection \<open>Copying a file\<close>

lemma map_of_mkdirs:
  "map_of (foldl (\<lambda>u d. AList.update d Dir u) t ds) p =
     (if p \<in> set ds then Some Dir else map_of t p)"
  by (induction ds arbitrary: t) (auto simp: update_conv')

lemma extractFile_frame:
  assumes "extractFile g ex mi w = (r, w1)"
  shows "ext_fs w1 = ext_fs w \<and>
     (\<forall>p. p \<notin> set (dir_chain (dirname (targetPath g))) \<and> p \<noteq> targetPath g \<longrightarrow>
          map_of (trk_fs w1) p = map_of (trk_fs w) p)"
  using assms
  by (auto simp: extractFile_def Let_def io_catch_def io_bind_def io_return_def fs_access_def
      fs_readFile_def fs_mkdir_def fs_writeFile_def sys_mkdir_def sys_writeFile_def
      path_join_def path_dirname_def set_fs_def fs_of_def emit_def map_of_mkdirs update_conv'
      split: sum.splits if_splits)

lemma extractFile_copies:
  assumes "map_of (ext_fs w) (sourcePath f) = Some (File src)"
    and "\<not> is_file (trk_fs w) (dirname (targetPath f))"
    and "\<not> list_ex (is_file (trk_fs w)) (dir_chain (dirname (targetPath f)))"
    and "map_of (trk_fs w) (targetPath f) \<noteq> Some Dir"
    and "targetPath f \<notin> set (dir_chain (dirname (targetPath f)))"
    and "dirname (targetPath f) \<in> set (dir_chain (dirname (targetPath f)))"
  shows "\<exists>w1. extractFile f ex mi w = (Return (ex @ [name f], mi), w1) \<and>
     ext_fs w1 = ext_fs w \<and>
     map_of (trk_fs w1) (dirname (targetPath f)) = Some Dir \<and>
     map_of (trk_fs w1) (targetPath f) = Some (File (utf8_encode (utf8_decode src)))"
  using assms
  by (auto simp: extractFile_def Let_def io_catch_def io_bind_def io_return_def fs_access_def
      fs_readFile_def fs_mkdir_def fs_writeFile_def sys_access_def sys_readFile_def
      sys_mkdir_def sys_writeFile_def
      path_join_def path_dirname_def set_fs_def fs_of_def emit_def map_of_mkdirs update_conv')


lemma source_file_paths:
  "f \<in> set SOURCE_FILES \<Longrightarrow>
   dir_chain (dirname (targetPath f)) = [dirname (targetPath f)] \<and>
   targetPath f \<noteq> dirname (targetPath f)"
proof -
  have "dir_chain (dirname ''prompts/prompts.ts'') = [dirname ''prompts/prompts.ts'']"
    "dir_chain (dirname ''tools/tool-registry.ts'') = [dirname ''tools/tool-registry.ts'']"
    "''prompts/prompts.ts'' \<noteq> dirname ''prompts/prompts.ts''"
    "''tools/tool-registry.ts'' \<noteq> dirname ''tools/tool-registry.ts''"
    by code_simp+
  then show "f \<in> set SOURCE_FILES \<Longrightarrow>
   dir_chain (dirname (targetPath f)) = [dirname (targetPath f)] \<and>
   targetPath f \<noteq> dirname (targetPath f)"
    by (auto simp: SOURCE_FILES_def)
qed

lemma source_files_apart:
  "dirname ''prompts/prompts.ts'' = ''prompts''" "dirname ''tools/tool-registry.ts'' = ''tools''"
  by code_simp+


lemma extractFile_blocked:
  assumes "is_file (trk_fs w) (dirname (targetPath f))"
  shows "\<exists>w1. extractFile f ex mi w = (Return (ex, mi @ [name f]), w1) \<and>
     trk_fs w1 = trk_fs w \<and> ext_fs w1 = ext_fs w"
  using assms
  by (auto simp: extractFile_def Let_def io_catch_def io_bind_def io_return_def fs_access_def
      fs_readFile_def fs_mkdir_def sys_mkdir_def path_join_def path_dirname_def fs_of_def
      emit_def split: sum.splits)

lemma extractFile_absent:
  assumes "map_of (ext_fs w) (sourcePath f) = None"
  shows "\<exists>w1. extractFile f ex mi w = (Return (ex, mi @ [name f]), w1) \<and>
     trk_fs w1 = trk_fs w \<and> ext_fs w1 = ext_fs w"
  using assms
  by (auto simp: extractFile_def Let_def io_catch_def io_bind_def io_return_def fs_access_def
      sys_access_def path_join_def fs_of_def emit_def split: sum.splits)

lemma latin1_replaced: "utf8_encode (utf8_decode [CHR 0xE9]) = [CHR 0xEF, CHR 0xBF, CHR 0xBD]"
proof -
  have "utf8_decode_from 0 0 0x80 0xBF [0xE9] = [0xFFFD]"
    using decode_lead3[of "0xE9" "[]"] by (simp add: utf8_decode_from.simps)
  then have "utf8_decode [CHR 0xE9] = [0xFFFD]"
    by (simp add: utf8_decode_def)
  moreover have "char_of (239::nat) = CHR 0xEF" "char_of (191::nat) = CHR 0xBF"
    "char_of (189::nat) = CHR 0xBD"
    by code_simp+
  ultimately show ?thesis
    by (simp add: utf8_encode_def utf8_encode_cp_def scalar_def)
qed

text \<open>
  C4, with what the copy needs. Let a file of \<open>SOURCE_FILES\<close> have its source in the
  external working tree as a regular file with the bytes \<open>src\<close>, and let the tracking
  repository have no regular file in the place of the destination's directory and no
  directory in the place of the destination. Then \<open>extractSources\<close> returns with the
  file's label among the extracted ones, the destination's directory exists, and the
  destination is a file whose bytes are the UTF-8 encoding of the UTF-8 decoding of
  \<open>src\<close>: they are \<open>src\<close> itself whenever \<open>src\<close> is the UTF-8 encoding of some text.
  Without these conditions the claim fails: see the counterexample, where a regular file
  named \<^verbatim>\<open>prompts\<close> makes \<^verbatim>\<open>mkdir\<close> fail (the label is then recorded as missing and
  nothing is written), and where the byte E9 is written back as EF BF BD.
\<close>

theorem extractSources_copies:
  assumes "f \<in> set SOURCE_FILES"
    and "map_of (ext_fs w) (sourcePath f) = Some (File src)"
    and "\<not> is_file (trk_fs w) (dirname (targetPath f))"
    and "map_of (trk_fs w) (targetPath f) \<noteq> Some Dir"
  shows "\<exists>extracted missing w'.
     extractSources w = (Return (extracted, missing), w') \<and>
     name f \<in> set extracted \<and>
     map_of (trk_fs w') (dirname (targetPath f)) = Some Dir \<and>
     map_of (trk_fs w') (targetPath f) = Some (File (utf8_encode (utf8_decode src))) \<and>
     (list_all scalar cps \<and> src = utf8_encode cps \<longrightarrow>
        map_of (trk_fs w') (targetPath f) = Some (File src))"
proof -
  let ?f1 = "\<lparr>sourcePath = ''packages/core/src/core/prompts.ts'',
       targetPath = ''prompts/prompts.ts'', name = ''Core prompts''\<rparr>"
  let ?f2 = "\<lparr>sourcePath = ''packages/core/src/tools/tool-registry.ts'',
       targetPath = ''tools/tool-registry.ts'', name = ''Tool registry''\<rparr>"
  have sf: "SOURCE_FILES = [?f1, ?f2]"
    by (simp add: SOURCE_FILES_def)
  have run: "extractSources w =
      io_bind (extractFile ?f1 [] []) (\<lambda>r.
      io_bind (extractFile ?f2 (fst r) (snd r)) (\<lambda>r. io_return (fst r, snd r))) w"
    by (simp add: extractSources_def sf)
  note p = source_file_paths[OF assms(1)]
  have core: "\<exists>extracted missing w'.
     extractSources w = (Return (extracted, missing), w') \<and>
     name f \<in> set extracted \<and>
     map_of (trk_fs w') (dirname (targetPath f)) = Some Dir \<and>
     map_of (trk_fs w') (targetPath f) = Some (File (utf8_encode (utf8_decode src)))"
  proof (cases "f = ?f1")
    case True
    from extractFile_copies[OF assms(2,3) _ assms(4), of "[]" "[]"] p obtain w1 where
      s1: "extractFile f [] [] w = (Return ([] @ [name f], []), w1)"
        "map_of (trk_fs w1) (dirname (targetPath f)) = Some Dir"
        "map_of (trk_fs w1) (targetPath f) = Some (File (utf8_encode (utf8_decode src)))"
      using assms(3) by auto
    obtain r2 w2 where s2: "extractFile ?f2 [name f] [] w1 = (r2, w2)"
      by (cases "extractFile ?f2 [name f] [] w1")
    from extractFile_cases[of ?f2 "[name f]" "[]" w1] s2 obtain ex2 mi2 where
      r2: "r2 = Return (ex2, mi2)" "name f \<in> set ex2"
      by auto
    from extractFile_frame[OF s2] have
      "map_of (trk_fs w2) ''prompts'' = map_of (trk_fs w1) ''prompts''"
      "map_of (trk_fs w2) ''prompts/prompts.ts'' = map_of (trk_fs w1) ''prompts/prompts.ts''"
      using source_file_paths[of ?f2] by (simp_all add: sf source_files_apart)
    then show ?thesis
      using s1 s2 r2 True by (simp add: run io_bind_def io_return_def source_files_apart)
  next
    case False
    then have f2: "f = ?f2"
      using assms(1) by (simp add: sf)
    obtain r1 w1 where s1: "extractFile ?f1 [] [] w = (r1, w1)"
      by (cases "extractFile ?f1 [] [] w")
    from extractFile_cases[of ?f1 "[]" "[]" w] s1 obtain ex1 mi1 where
      r1: "r1 = Return (ex1, mi1)"
      by auto
    from extractFile_frame[OF s1] have fr:
      "ext_fs w1 = ext_fs w"
      "map_of (trk_fs w1) ''tools'' = map_of (trk_fs w) ''tools''"
      "map_of (trk_fs w1) ''tools/tool-registry.ts'' = map_of (trk_fs w) ''tools/tool-registry.ts''"
      using source_file_paths[of ?f1] by (simp_all add: sf source_files_apart)
    have a: "map_of (ext_fs w1) (sourcePath f) = Some (File src)"
      "\<not> is_file (trk_fs w1) (dirname (targetPath f))"
      "map_of (trk_fs w1) (targetPath f) \<noteq> Some Dir"
      using assms(2,3,4) fr by (simp_all add: f2 is_file_def source_files_apart)
    from extractFile_copies[OF a(1,2) _ a(3), of ex1 mi1] p obtain w2 where
      "extractFile f ex1 mi1 w1 = (Return (ex1 @ [name f], mi1), w2)"
      "map_of (trk_fs w2) (dirname (targetPath f)) = Some Dir"
      "map_of (trk_fs w2) (targetPath f) = Some (File (utf8_encode (utf8_decode src)))"
      using a(2) by auto
    then show ?thesis
      using s1 r1 f2 by (simp add: run io_bind_def io_return_def)
  qed
  have "utf8_encode (utf8_decode src) = src" if "list_all scalar cps \<and> src = utf8_encode cps"
    using that by (simp add: utf8_decode_encode)
  then show ?thesis
    using core by metis
qed


theorem extractSources_copies_witness:
  "\<exists>extracted missing w'.
     extractSources w_source = (Return (extracted, missing), w') \<and>
     ''Core prompts'' \<in> set extracted \<and>
     map_of (trk_fs w') ''prompts'' = Some Dir \<and>
     map_of (trk_fs w') ''prompts/prompts.ts'' =
       map_of (ext_fs w_source) ''packages/core/src/core/prompts.ts''"
proof -
  let ?f1 = "\<lparr>sourcePath = ''packages/core/src/core/prompts.ts'',
       targetPath = ''prompts/prompts.ts'', name = ''Core prompts''\<rparr>"
  have a: "?f1 \<in> set SOURCE_FILES"
    by (simp add: SOURCE_FILES_def)
  have b: "map_of (ext_fs w_source) (sourcePath ?f1) =
      Some (File (utf8_encode [0x61, 0xE9, 0x20AC, 0x1F600]))"
    by (simp add: w_source_def)
  have c: "\<not> is_file (trk_fs w_source) (dirname (targetPath ?f1))"
    "map_of (trk_fs w_source) (targetPath ?f1) \<noteq> Some Dir"
    by (simp_all add: w_source_def is_file_def)
  have d: "list_all scalar [0x61, 0xE9, 0x20AC, 0x1F600]"
    by (simp add: scalar_def)
  from extractSources_copies[OF a b c, of "[0x61, 0xE9, 0x20AC, 0x1F600]"] d
  obtain extracted missing w' where
    "extractSources w_source = (Return (extracted, missing), w')"
    "name ?f1 \<in> set extracted"
    "map_of (trk_fs w') (dirname (targetPath ?f1)) = Some Dir"
    "map_of (trk_fs w') (targetPath ?f1) = Some (File (utf8_encode [0x61, 0xE9, 0x20AC, 0x1F600]))"
    by auto
  then show ?thesis
    using b by (auto simp: source_files_apart)
qed

theorem extractSources_copies_counterexample:
  "map_of (ext_fs w_blocked) ''packages/core/src/core/prompts.ts'' = Some (File ''x'')
   \<and> fst (extractSources w_blocked) = Return ([], [''Core prompts'', ''Tool registry''])
   \<and> map_of (trk_fs (snd (extractSources w_blocked))) ''prompts/prompts.ts'' = None
   \<and> map_of (ext_fs w_latin1) ''packages/core/src/core/prompts.ts'' = Some (File [CHR 0xE9])
   \<and> fst (extractSources w_latin1) = Return ([''Core prompts''], [''Tool registry''])
   \<and> map_of (trk_fs (snd (extractSources w_latin1))) ''prompts/prompts.ts'' =
       Some (File [CHR 0xEF, CHR 0xBF, CHR 0xBD])"
proof -
  let ?f1 = "\<lparr>sourcePath = ''packages/core/src/core/prompts.ts'',
       targetPath = ''prompts/prompts.ts'', name = ''Core prompts''\<rparr>"
  let ?f2 = "\<lparr>sourcePath = ''packages/core/src/tools/tool-registry.ts'',
       targetPath = ''tools/tool-registry.ts'', name = ''Tool registry''\<rparr>"
  have run: "extractSources w =
      io_bind (extractFile ?f1 [] []) (\<lambda>r.
      io_bind (extractFile ?f2 (fst r) (snd r)) (\<lambda>r. io_return (fst r, snd r))) w" for w
    by (simp add: extractSources_def SOURCE_FILES_def)
  have "is_file (trk_fs w_blocked) (dirname (targetPath ?f1))"
    by (simp add: w_blocked_def is_file_def source_files_apart)
  from extractFile_blocked[OF this, of "[]" "[]"] obtain w1 where
    b1: "extractFile ?f1 [] [] w_blocked = (Return ([], [] @ [name ?f1]), w1)"
      "trk_fs w1 = trk_fs w_blocked" "ext_fs w1 = ext_fs w_blocked"
    by blast
  have "map_of (ext_fs w1) (sourcePath ?f2) = None"
    by (simp add: b1 w_blocked_def)
  from extractFile_absent[OF this, of "[]" "[name ?f1]"] obtain w2 where
    b2: "extractFile ?f2 [] [name ?f1] w1 = (Return ([], [name ?f1] @ [name ?f2]), w2)"
      "trk_fs w2 = trk_fs w1"
    by blast
  have blocked: "extractSources w_blocked = (Return ([], [''Core prompts'', ''Tool registry'']), w2)"
    using b1 b2 by (simp add: run io_bind_def io_return_def)
  have "map_of (ext_fs w_latin1) (sourcePath ?f1) = Some (File [CHR 0xE9])"
    "\<not> is_file (trk_fs w_latin1) (dirname (targetPath ?f1))"
    "\<not> list_ex (is_file (trk_fs w_latin1)) (dir_chain (dirname (targetPath ?f1)))"
    "map_of (trk_fs w_latin1) (targetPath ?f1) \<noteq> Some Dir"
    "targetPath ?f1 \<notin> set (dir_chain (dirname (targetPath ?f1)))"
    "dirname (targetPath ?f1) \<in> set (dir_chain (dirname (targetPath ?f1)))"
    using source_file_paths[of ?f1]
    by (simp_all add: w_latin1_def is_file_def SOURCE_FILES_def)
  from extractFile_copies[OF this, of "[]" "[]"] obtain w3 where
    l1: "extractFile ?f1 [] [] w_latin1 = (Return ([] @ [name ?f1], []), w3)"
      "ext_fs w3 = ext_fs w_latin1"
      "map_of (trk_fs w3) (targetPath ?f1) = Some (File (utf8_encode (utf8_decode [CHR 0xE9])))"
    by blast
  have "map_of (ext_fs w3) (sourcePath ?f2) = None"
    by (simp add: l1 w_latin1_def)
  from extractFile_absent[OF this, of "[name ?f1]" "[]"] obtain w4 where
    l2: "extractFile ?f2 [name ?f1] [] w3 = (Return ([name ?f1], [] @ [name ?f2]), w4)"
      "trk_fs w4 = trk_fs w3"
    by blast
  have latin1: "extractSources w_latin1 = (Return ([''Core prompts''], [''Tool registry'']), w4)"
    using l1 l2 by (simp add: run io_bind_def io_return_def)
  show ?thesis
    using blocked b1(2) b2(2) latin1 l1(3) l2(2)
    by (simp add: latin1_replaced) (simp add: w_blocked_def w_latin1_def)
qed

subsection \<open>The arguments as they are written\<close>

lemma parseInt_digits:
  assumes "ds \<noteq> []" and "list_all is_digit ds"
  shows "parseInt (Some ds) = Num (int (digits_value ds))"
proof -
  obtain d ds' where ds: "ds = d # ds'"
    using assms(1) by (cases ds) auto
  then have d: "is_digit d"
    using assms(2) by simp
  then have "\<not> js_white d" "d \<noteq> CHR ''-''" "d \<noteq> CHR ''+''"
    by (auto simp: is_digit_def js_white_def)
  moreover have "takeWhile is_digit ds = ds"
    using assms(2) by (simp add: list_all_iff)
  ultimately show ?thesis
    using ds by (simp add: parseInt_def Let_def)
qed

lemma limit_written:
  assumes "\<forall>a \<in> set pre. \<not> startsWith a ''--limit=''" and "ds \<noteq> []" and "list_all is_digit ds"
  shows "limit (pre @ (''--limit='' @ ds) # post) = Some (Num (int (digits_value ds)))"
proof -
  have "findIndex (\<lambda>arg. startsWith arg ''--limit='') (pre @ (''--limit='' @ ds) # post) =
      int (length pre)"
    using assms(1) by (intro findIndex_first) (simp_all add: startsWith_def)
  moreover have "CHR ''='' \<notin> set ds"
    using assms(3) by (auto simp: list_all_iff is_digit_def)
  then have "js_index (js_split CHR ''='' (''--limit'' @ CHR ''='' # ds)) 1 = Some ds"
    by (intro option_value) simp_all
  ultimately show ?thesis
    using parseInt_digits[OF assms(2,3)] by (simp add: limit_def js_index_def)
qed

subsection \<open>Tags and labels hold no line break\<close>

lemma enumerated_no_newline: "t \<in> set (enumerated w) \<Longrightarrow> NL \<notin> set t"
proof (cases "ext_available w")
  case True
  assume "t \<in> set (enumerated w)"
  then have "t \<in> set (js_split NL (trim (concat (map (\<lambda>t. fst t @ [NL]) (ext_tags w)))))"
    using True
    by (simp add: enumerated_def getAllTags_def execAsync_def io_bind_def io_return_def emit_def)
  then show ?thesis
    by (rule js_split_no_sep)
next
  case False
  assume "t \<in> set (enumerated w)"
  then show ?thesis
    using False
    by (simp add: enumerated_def getAllTags_def execAsync_def io_bind_def io_return_def emit_def)
qed

lemma labels_no_newline: "f \<in> set SOURCE_FILES \<Longrightarrow> NL \<notin> set (name f)"
  by (auto simp: SOURCE_FILES_def)

subsection \<open>A commit marks its tag\<close>

text \<open>
  The commit that \<open>commitChanges\<close> makes is found by the next ledger check: the
  message that reaches git is the generated one, and its first line is the marker.
\<close>

lemma escapeQuotes_Nil: "escapeQuotes s = [] \<longleftrightarrow> s = []"
  by (cases s) (auto simp: escapeQuotes_def)

lemma escapeQuotes_Cons:
  "escapeQuotes (c # cs) =
     (if c = DQUOTE then BACKSLASH # DQUOTE # escapeQuotes cs else c # escapeQuotes cs)"
  by (simp add: escapeQuotes_def)

lemma sh_scan_escapeQuotes:
  "\<forall>c \<in> set s. c \<noteq> BACKSLASH \<and> c \<noteq> CHR ''$'' \<and> c \<noteq> BACKQUOTE \<Longrightarrow>
   sh_scan Double (escapeQuotes s @ u) = map_option (\<lambda>(q, a). (q, s @ a)) (sh_scan Double u)"
proof (induction s)
  case Nil
  show ?case
    by (cases "sh_scan Double u") (auto simp: escapeQuotes_def)
next
  case (Cons c s)
  then have "sh_scan Double (escapeQuotes (c # s) @ u) = keep c (sh_scan Double (escapeQuotes s @ u))"
    by (simp add: escapeQuotes_Cons)
  also have "\<dots> = map_option (\<lambda>(q, a). (q, (c # s) @ a)) (sh_scan Double u)"
    using Cons by (simp add: keep_keep)
  finally show ?case .
qed

lemma sh_commit:
  "\<forall>c \<in> set m. c \<noteq> BACKSLASH \<and> c \<noteq> CHR ''$'' \<and> c \<noteq> BACKQUOTE \<Longrightarrow>
   sh (GitCommit (escapeQuotes m)) = Reads (GitCommit m)"
  using sh_scan_escapeQuotes[of m "[]"] by (simp add: sh_reads_def)

lemma first_line_commitMessage:
  "NL \<notin> set tag \<Longrightarrow> first_line (commitMessage tag extracted missing) = ''Add metadata for '' @ tag"
proof -
  assume n: "NL \<notin> set tag"
  have "takeWhile (\<lambda>c. c \<noteq> NL) ((''Add metadata for '' @ tag) @ NL # rest) =
      ''Add metadata for '' @ tag" for rest
    using n by (subst takeWhile_append2) auto
  then show ?thesis
    unfolding first_line_def commitMessage_text by simp
qed

lemma commitMessage_inert:
  assumes "\<forall>c \<in> set tag. c \<noteq> BACKSLASH \<and> c \<noteq> CHR ''$'' \<and> c \<noteq> BACKQUOTE"
    and "\<forall>l \<in> set extracted \<union> set missing. \<forall>c \<in> set l. c \<noteq> BACKSLASH \<and> c \<noteq> CHR ''$'' \<and> c \<noteq> BACKQUOTE"
  shows "\<forall>c \<in> set (commitMessage tag extracted missing). c \<noteq> BACKSLASH \<and> c \<noteq> CHR ''$'' \<and> c \<noteq> BACKQUOTE"
  using assms unfolding commitMessage_text by auto

lemma committed_tag_is_marked:
  assumes "NL \<notin> set tag" and "\<forall>c \<in> set tag. c \<noteq> BACKSLASH \<and> c \<noteq> CHR ''$'' \<and> c \<noteq> BACKQUOTE"
    and "\<forall>l \<in> set extracted \<union> set missing. \<forall>c \<in> set l. c \<noteq> BACKSLASH \<and> c \<noteq> CHR ''$'' \<and> c \<noteq> BACKQUOTE"
    and "trk_commits (snd (commitChanges tag extracted missing w)) \<noteq> trk_commits w"
  shows "marked (snd (commitChanges tag extracted missing w)) tag"
proof -
  define m where "m = commitMessage tag extracted missing"
  have s: "sh (GitCommit (escapeQuotes m)) = Reads (GitCommit m)"
    unfolding m_def using assms(2,3) by (intro sh_commit commitMessage_inert)
  have f: "first_line m = ''Add metadata for '' @ tag"
    unfolding m_def by (rule first_line_commitMessage[OF assms(1)])
  show ?thesis
    using assms(4) f unfolding commitChanges_def m_def[symmetric]
    by (auto simp: execAsync_plain execAsync_reads[OF s] io_bind_def io_catch_def console_log_def
        console_error_def emit_def marked_def split: if_splits)
qed

subsection \<open>What fails in a turn\<close>















end
